theory Spec2Isabelle
  imports Complex_Main "HOL-Library.Word"
begin

unbundle bit_operations_syntax

section \<open>Identipattern core: a shallow embedding of core.ts\<close>

text \<open>
  Conventions of the embedding.
  \<^item> A JavaScript string is a list of code units; only code units below 256 are
    representable, which covers every string that passes validation (ASCII).
  \<^item> Integer-valued JavaScript numbers (bytes, hash accumulators, indices) are \<open>int\<close> or
    \<open>nat\<close>; the 32-bit conversions of \<open><<\<close>, \<open>>>>\<close> and \<open>&\<close> are written with \<open>32 word\<close>.
  \<^item> All other JavaScript numbers (sizes, radii, angles) are idealised as \<open>real\<close>:
    \<open>Math.sin\<close>, \<open>Math.cos\<close>, \<open>Math.sqrt\<close> are the real functions, and IEEE rounding and
    the infinities are outside the model, except for the \<open>Infinity\<close> that initialises
    \<open>minGap\<close> in \<open>tuneWaves\<close>, which is modelled as \<open>None\<close>. A size that is a number is a
    real; NaN enters the model in one way only, through a \<open>size\<close> option that is present
    with the value \<open>undefined\<close>, which the interface \<open>size?: number\<close> admits.
\<close>

subsection \<open>Validation and byte decoding\<close>

text \<open>The \<open>Error\<close> thrown by the validation, with its message, and the \<open>TypeError\<close> that
  the runtime throws when a method is called on \<open>undefined\<close>.\<close>

datatype error = Error string | TypeError

text \<open>A value that may be \<open>undefined\<close>, and a number that may be NaN.\<close>

datatype 'a js_value = Undefined | Value 'a

datatype jsnum = Num real | NaN

definition code_unit :: "char \<Rightarrow> nat" where
  "code_unit c = of_char c"

text \<open>One character of the class \<open>[0-9a-f]\<close> under the \<open>i\<close> flag.\<close>

definition hex_class_ci :: "char \<Rightarrow> bool" where
  "hex_class_ci c =
     (let n = code_unit c
      in (48 \<le> n \<and> n \<le> 57) \<or> (97 \<le> n \<and> n \<le> 102) \<or> (65 \<le> n \<and> n \<le> 70))"

text \<open>The anchored pattern \<open>^[0-9a-f]{k}$\<close> with flag \<open>i\<close>: exactly k class characters, then
  the end of the input.\<close>

fun match_hex_rep :: "nat \<Rightarrow> string \<Rightarrow> bool" where
  "match_hex_rep 0 s = (s = [])"
| "match_hex_rep (Suc k) [] = False"
| "match_hex_rep (Suc k) (c # cs) = (hex_class_ci c \<and> match_hex_rep k cs)"

definition hash_regex_test :: "string \<Rightarrow> bool" where
  "hash_regex_test hashHex = match_hex_rep 64 hashHex"

text \<open>\<open>String.prototype.toLowerCase\<close> on code units below 256.\<close>

definition toLowerCase_unit :: "char \<Rightarrow> char" where
  "toLowerCase_unit c =
     (let n = code_unit c
      in if (65 \<le> n \<and> n \<le> 90) \<or> (192 \<le> n \<and> n \<le> 222 \<and> n \<noteq> 215)
         then char_of (n + 32) else c)"

definition toLowerCase :: "string \<Rightarrow> string" where
  "toLowerCase s = map toLowerCase_unit s"

definition is_js_space :: "char \<Rightarrow> bool" where
  "is_js_space c = (code_unit c \<in> {9, 10, 11, 12, 13, 32, 160})"

definition hex_digit_val :: "char \<Rightarrow> nat option" where
  "hex_digit_val c =
     (let n = code_unit c
      in if 48 \<le> n \<and> n \<le> 57 then Some (n - 48)
         else if 97 \<le> n \<and> n \<le> 102 then Some (n - 87)
         else if 65 \<le> n \<and> n \<le> 70 then Some (n - 55)
         else None)"

text \<open>
  \<open>parseInt(s, 16)\<close>: leading white space is skipped, one sign is read, a \<open>0x\<close> prefix is
  dropped, and the longest prefix of hexadecimal digits is the value; \<open>None\<close> is NaN
  (no digit). The source applies it to slices of two characters only, where the value
  is exact.
\<close>

definition parseInt16 :: "string \<Rightarrow> int option" where
  "parseInt16 s =
     (let s1 = dropWhile is_js_space s;
          neg = (take 1 s1 = ''-'');
          s2 = (if take 1 s1 = ''-'' \<or> take 1 s1 = ''+'' then drop 1 s1 else s1);
          s3 = (if take 2 s2 = ''0x'' \<or> take 2 s2 = ''0X'' then drop 2 s2 else s2);
          ds = takeWhile (\<lambda>c. hex_digit_val c \<noteq> None) s3;
          v = foldl (\<lambda>a c. 16 * a + int (case hex_digit_val c of None \<Rightarrow> 0 | Some d \<Rightarrow> d)) 0 ds
      in if ds = [] then None else Some (if neg then - v else v))"

text \<open>The loop of \<open>parseBytes\<close>: \<open>for (i = 0; i + 1 < s.length; i += 2)\<close> pushes
  \<open>parseInt(s.slice(i, i + 2), 16) || 0\<close>.\<close>

fun parseBytes_loop :: "string \<Rightarrow> int list" where
  "parseBytes_loop (a # b # rest) =
     (case parseInt16 [a, b] of None \<Rightarrow> 0 | Some v \<Rightarrow> v) # parseBytes_loop rest"
| "parseBytes_loop [a] = []"
| "parseBytes_loop [] = []"

definition parseBytes :: "string \<Rightarrow> int list" where
  "parseBytes hex = parseBytes_loop (toLowerCase hex)"

subsection \<open>The windowed hash and the marker permutation\<close>

text \<open>\<open>h << 5\<close>: the operand is converted to a 32-bit integer, shifted, and read back
  as a signed 32-bit integer.\<close>

definition js_shl5 :: "int \<Rightarrow> int" where
  "js_shl5 h = sint (push_bit 5 (word_of_int h :: 32 word))"

text \<open>\<open>h >>> 0\<close>: the operand read as an unsigned 32-bit integer.\<close>

definition js_ushr0 :: "int \<Rightarrow> int" where
  "js_ushr0 h = uint (word_of_int h :: 32 word)"

text \<open>
  The loop of \<open>hashSegment\<close>. The accumulator \<open>h\<close> is a JavaScript number: only the term
  \<open>h << 5\<close> is wrapped to 32 bits, the sum \<open>(h << 5) + h + bytes[i]\<close> is not.
\<close>

function hashSegment_loop :: "int list \<Rightarrow> nat \<Rightarrow> nat \<Rightarrow> int \<Rightarrow> int" where
  "hashSegment_loop bytes stop i h =
     (if i < stop \<and> i < length bytes
      then hashSegment_loop bytes stop (Suc i) ((js_shl5 h + h) + bytes ! i)
      else h)"
  by pat_completeness auto
termination
  by (relation "measure (\<lambda>(bytes, stop, i, h). stop - i)") auto

declare hashSegment_loop.simps [simp del]

definition hashSegment :: "int list \<Rightarrow> nat \<Rightarrow> nat \<Rightarrow> int" where
  "hashSegment bytes start len = \<bar>js_ushr0 (hashSegment_loop bytes (start + len) start 5381)\<bar>"

definition permIdx :: "nat \<Rightarrow> nat" where
  "permIdx i = (i * 73) AND 127"

subsection \<open>Derived parameters\<close>

text \<open>The bitwise operators below act on values inside the 32-bit range (bytes, and
  \<open>pseudo < 1024\<close>), where \<open>>>\<close> and \<open>&\<close> agree with \<open>drop_bit\<close> and \<open>AND\<close> on \<open>int\<close>.\<close>

definition amplitude :: "int list \<Rightarrow> real" where
  "amplitude bytes = (real_of_int (hashSegment bytes 16 8 mod 1000) / 1000) * 0.35 + 0.35"

definition freq1 :: "int list \<Rightarrow> int" where
  "freq1 bytes =
     (let f = (hashSegment bytes 0 8 mod 5) + 3
      in if amplitude bytes < 0.5 \<and> f > 4 then 4 else f)"

definition pseudo :: "int list \<Rightarrow> int" where
  "pseudo bytes = hashSegment bytes 8 8 mod 1024"

definition innerAccent :: "int list \<Rightarrow> int" where
  "innerAccent bytes = hashSegment bytes 30 2 mod 10"

text \<open>\<open>(hashSegment(bytes, 29, 1) & 1) === 1\<close>, the operand of \<open>&\<close> converted to 32 bits.\<close>

definition centerHollow :: "int list \<Rightarrow> bool" where
  "centerHollow bytes = (sint ((word_of_int (hashSegment bytes 29 1) :: 32 word) AND 1) = 1)"

definition nWaves :: "int list \<Rightarrow> nat" where
  "nWaves bytes = nat ((drop_bit 6 (pseudo bytes) mod 3) + 3)"

definition freq2 :: "int list \<Rightarrow> int" where
  "freq2 bytes = ((drop_bit 2 (pseudo bytes)) AND 15) mod 5 + 4"

definition thickness :: real where
  "thickness = 0.7"

definition detail :: nat where
  "detail = 720"

definition maxR :: "real \<Rightarrow> real" where
  "maxR sz = sz * 0.38"

definition curveOuterMargin :: "real \<Rightarrow> real" where
  "curveOuterMargin sz = max (3 * thickness) (sz * 0.05)"

definition curveMaxPx :: "real \<Rightarrow> real" where
  "curveMaxPx sz = maxR sz - curveOuterMargin sz"

definition keepout :: "int \<Rightarrow> real \<Rightarrow> real" where
  "keepout ia sz =
     (let k = (if ia = 0 then sz * 0.12
               else if ia = 1 then sz * 0.15
               else if ia = 2 then sz * 0.06
               else if ia = 3 then sz * 0.08
               else if ia \<ge> 5 \<and> ia \<le> 9 then sz * 0.13
               else 0)
      in if k > 0 then min k (curveMaxPx sz * 0.4) else 0)"

subsection \<open>The wave tuner\<close>

record tuned =
  f1 :: real
  gamma :: real
  ampScale :: real

text \<open>\<open>Math.pow\<close> on a base that is an absolute value.\<close>

definition js_pow :: "real \<Rightarrow> real \<Rightarrow> real" where
  "js_pow x y = (if y = 0 then 1 else x powr y)"

text \<open>\<open>Math.sign(s) * Math.pow(Math.abs(s), gamma)\<close>\<close>

definition shaped :: "real \<Rightarrow> real \<Rightarrow> real" where
  "shaped s g = sgn s * js_pow \<bar>s\<bar> g"

text \<open>The body of the sampling loop of \<open>tuneWaves\<close>: \<open>|r1 - r2|\<close> at sample \<open>i\<close> of 64.\<close>

definition sample_gap :: "real \<Rightarrow> real \<Rightarrow> tuned \<Rightarrow> nat \<Rightarrow> real" where
  "sample_gap amp cmax st i =
     (let t = (real i / 64) * pi * 2;
          s1 = sin (f1 st * t);
          s1c = shaped s1 (gamma st);
          r1 = amp * (1 + 0.5 * s1c) * ampScale st * cmax;
          tOpp = t + pi / max (f1 st) (1 / 10 ^ 6);
          s2 = sin (f1 st * tOpp);
          s2c = shaped s2 (gamma st);
          r2 = amp * (1 + 0.5 * s2c) * ampScale st * cmax
      in \<bar>r1 - r2\<bar>)"

text \<open>\<open>minGap\<close> starts at \<open>Infinity\<close> (\<open>None\<close>) and takes \<open>Math.min\<close> with each sample.\<close>

definition min_inf :: "real option \<Rightarrow> real \<Rightarrow> real option" where
  "min_inf m x = (case m of None \<Rightarrow> Some x | Some v \<Rightarrow> Some (min v x))"

definition minGap_of :: "real \<Rightarrow> real \<Rightarrow> tuned \<Rightarrow> real option" where
  "minGap_of amp cmax st = foldl (\<lambda>m i. min_inf m (sample_gap amp cmax st i)) None [0..<64]"

function tuneWaves_loop :: "real \<Rightarrow> real \<Rightarrow> real \<Rightarrow> nat \<Rightarrow> tuned \<Rightarrow> tuned" where
  "tuneWaves_loop amp cmax minGapPx iter st =
     (if iter < 3 then
        (case minGap_of amp cmax st of
           None \<Rightarrow> st
         | Some minGap \<Rightarrow>
             if minGap \<ge> minGapPx then st
             else if iter = 0 then
               tuneWaves_loop amp cmax minGapPx (Suc iter)
                 (st\<lparr>ampScale := min 1.25 (ampScale st * sqrt (minGapPx / max minGap (1 / 10 ^ 6)))\<rparr>)
             else if iter = 1 then
               tuneWaves_loop amp cmax minGapPx (Suc iter)
                 (st\<lparr>gamma := min 1.7 (gamma st + 0.2)\<rparr>)
             else if f1 st > 3 then
               tuneWaves_loop amp cmax minGapPx (Suc iter)
                 (st\<lparr>f1 := max 3 (f1 st - 1)\<rparr>)
             else tuneWaves_loop amp cmax minGapPx (Suc iter) st)
      else st)"
  by pat_completeness auto
termination
  by (relation "measure (\<lambda>(amp, cmax, minGapPx, iter, st). 3 - iter)") auto

declare tuneWaves_loop.simps [simp del]

definition tuneWaves :: "real \<Rightarrow> real \<Rightarrow> real \<Rightarrow> real \<Rightarrow> tuned" where
  "tuneWaves fr amp cmax thick =
     tuneWaves_loop amp cmax (max (7.0 * thick) 6.0) 0
       \<lparr>f1 = fr, gamma = 1.35, ampScale = 1.0\<rparr>"

subsection \<open>The radial profile\<close>

definition radialAt ::
  "real \<Rightarrow> real \<Rightarrow> real \<Rightarrow> real \<Rightarrow> real \<Rightarrow> real \<Rightarrow> real \<Rightarrow> real \<Rightarrow> real" where
  "radialAt t f amp cmax kp thick g ascale =
     (let s = sin (f * t);
          sc = shaped s g;
          rNorm0 = amp * (1 + 0.5 * sc) * ascale;
          baseHalfSwingPx = 0.5 * amp * cmax * ascale;
          minHalfSwingPx = max (3.0 * thick) 2.0;
          rNorm = (if baseHalfSwingPx < minHalfSwingPx
                   then (let scale = minHalfSwingPx / max baseHalfSwingPx (1 / 10 ^ 6);
                             mean = amp * ascale
                         in mean + (rNorm0 - mean) * scale)
                   else rNorm0);
          rPx = rNorm * cmax
      in max kp (min cmax rPx))"

subsection \<open>Number formatting\<close>

definition digit_char :: "nat \<Rightarrow> char" where
  "digit_char d = char_of (48 + d)"

function dec_digits :: "nat \<Rightarrow> string" where
  "dec_digits n = (if n < 10 then [digit_char n] else dec_digits (n div 10) @ [digit_char (n mod 10)])"
  by pat_completeness auto
termination
  by (relation "measure (\<lambda>n. n)") auto

declare dec_digits.simps [simp del]

text \<open>
  \<open>n.toFixed(2)\<close> on a number \<open>n\<close>: the sign is split off; below \<open>10^21\<close> the digits are
  those of the integer nearest to \<open>100 * |n|\<close> (the larger one on a tie), padded to three
  digits, with a point before the last two. From \<open>10^21\<close> on the result is the number's
  own string conversion, which belongs to the runtime and is the parameter \<open>nts\<close>.
\<close>

definition toFixed2 :: "(real \<Rightarrow> string) \<Rightarrow> real \<Rightarrow> string" where
  "toFixed2 nts n =
     (let s = (if n < 0 then ''-'' else []);
          x = \<bar>n\<bar>
      in if x \<ge> 10 ^ 21 then s @ nts x
         else (let m0 = dec_digits (nat \<lfloor>x * 100 + 1 / 2\<rfloor>);
                   m = replicate (3 - length m0) (CHR ''0'') @ m0;
                   k = length m
               in s @ take (k - 2) m @ ''.'' @ drop (k - 2) m))"

text \<open>\<open>r2\<close> on a number that may be NaN: \<open>NaN.toFixed(2)\<close> is the string \<open>NaN\<close>. (On
  \<open>undefined\<close> the call throws; the composer below raises that error where the source
  evaluates \<open>r2(size)\<close>.)\<close>

fun r2 :: "(real \<Rightarrow> string) \<Rightarrow> jsnum \<Rightarrow> string" where
  "r2 nts (Num n) = toFixed2 nts n"
| "r2 nts NaN = ''NaN''"

text \<open>A value interpolated into a template string as it is: \<open>${size}\<close>.\<close>

fun template_str :: "(real \<Rightarrow> string) \<Rightarrow> real js_value \<Rightarrow> string" where
  "template_str nts (Value n) = nts n"
| "template_str nts Undefined = ''undefined''"

subsection \<open>Drawing primitives and their serialisation\<close>

text \<open>
  One constructor for each template string that the source pushes onto \<open>parts\<close>; the
  fields are the values the template interpolates, before formatting: the size itself
  in the first two, coordinates that may be NaN, and stroke widths, which derive from
  the constant \<open>thickness\<close> and are always numbers.
\<close>

datatype prim =
    SvgOpen "real js_value"
  | Background "real js_value"
  | GridOpen
  | GridV jsnum jsnum
  | GridH jsnum jsnum
  | GridClose
  | Border jsnum jsnum jsnum jsnum real
  | Wave "(jsnum \<times> jsnum) list" real
  | Marker jsnum jsnum jsnum jsnum
  | GlyphPath "(jsnum \<times> jsnum) list" bool real
  | Dot jsnum jsnum jsnum
  | Ring jsnum jsnum jsnum real
  | SvgClose

text \<open>\<open>pts.join(' L')\<close>\<close>

fun join_L :: "string list \<Rightarrow> string" where
  "join_L [] = []"
| "join_L [p] = p"
| "join_L (p # q # ps) = p @ '' L'' @ join_L (q # ps)"

definition point_str :: "(real \<Rightarrow> string) \<Rightarrow> jsnum \<times> jsnum \<Rightarrow> string" where
  "point_str nts p = r2 nts (fst p) @ '','' @ r2 nts (snd p)"

fun render :: "(real \<Rightarrow> string) \<Rightarrow> prim \<Rightarrow> string" where
  \<open>render nts (SvgOpen sz) =
     ''<svg width="'' @ template_str nts sz @ ''" height="'' @ template_str nts sz @
     ''" xmlns="http://www.w3.org/2000/svg">''\<close>
| \<open>render nts (Background sz) =
     ''<rect width="'' @ template_str nts sz @ ''" height="'' @ template_str nts sz @
     ''" fill="white"/>''\<close>
| \<open>render nts GridOpen = ''<g opacity="0.2">''\<close>
| \<open>render nts (GridV pos sz) =
     ''<line x1="'' @ r2 nts pos @ ''" y1="0" x2="'' @ r2 nts pos @ ''" y2="'' @ r2 nts sz @
     ''" stroke="blue" stroke-width="0.5"/>''\<close>
| \<open>render nts (GridH pos sz) =
     ''<line x1="0" y1="'' @ r2 nts pos @ ''" x2="'' @ r2 nts sz @ ''" y2="'' @ r2 nts pos @
     ''" stroke="blue" stroke-width="0.5"/>''\<close>
| \<open>render nts GridClose = ''</g>''\<close>
| \<open>render nts (Border x y w h sw) =
     ''<rect x="'' @ r2 nts x @ ''" y="'' @ r2 nts y @ ''" width="'' @ r2 nts w @
     ''" height="'' @ r2 nts h @ ''" fill="none" stroke="black" stroke-width="'' @ r2 nts (Num sw) @
     ''"/>''\<close>
| \<open>render nts (Wave pts sw) =
     ''<path d="M'' @ join_L (map (point_str nts) pts) @
     ''" fill="none" stroke="black" stroke-width="'' @ r2 nts (Num sw) @
     ''" stroke-linecap="round" stroke-linejoin="round"/>''\<close>
| \<open>render nts (Marker x y w h) =
     ''<rect x="'' @ r2 nts x @ ''" y="'' @ r2 nts y @ ''" width="'' @ r2 nts w @
     ''" height="'' @ r2 nts h @ ''" fill="black"/>''\<close>
| \<open>render nts (GlyphPath pts hollow sw) =
     ''<path d="M'' @ join_L (map (point_str nts) pts) @ ''Z"'' @
     (if hollow then '' fill="none" stroke="black" stroke-width="'' @ r2 nts (Num sw) @ ''"''
      else '' fill="black" stroke="black" stroke-width="'' @ r2 nts (Num sw) @ ''"'') @ ''/>''\<close>
| \<open>render nts (Dot x y r) =
     ''<circle cx="'' @ r2 nts x @ ''" cy="'' @ r2 nts y @ ''" r="'' @ r2 nts r @
     ''" fill="black"/>''\<close>
| \<open>render nts (Ring x y r sw) =
     ''<circle cx="'' @ r2 nts x @ ''" cy="'' @ r2 nts y @ ''" r="'' @ r2 nts r @
     ''" fill="none" stroke="black" stroke-width="'' @ r2 nts (Num sw) @ ''"/>''\<close>
| \<open>render nts SvgClose = ''</svg>''\<close>

subsection \<open>The composer\<close>

definition borderSize :: "real \<Rightarrow> real" where
  "borderSize sz = sz * 0.84"

definition borderOffset :: "real \<Rightarrow> real" where
  "borderOffset sz = (sz - borderSize sz) / 2"

definition borderThickness :: real where
  "borderThickness = thickness * 0.9"

definition blockWidth :: "real \<Rightarrow> real" where
  "blockWidth sz = sz * 0.036"

definition blockLength :: "real \<Rightarrow> real" where
  "blockLength sz = sz * 0.07"

definition blocksPerSide :: nat where
  "blocksPerSide = 32"

text \<open>The diagnostic grid: emitted only if \<open>showGrid\<close> holds.\<close>

definition grid_parts :: "real \<Rightarrow> prim list" where
  "grid_parts sz =
     [GridOpen] @
     concat (map (\<lambda>i. let pos = (real i + 1) * (sz / 10)
                      in [GridV (Num pos) (Num sz), GridH (Num pos) (Num sz)]) [0..<10]) @
     [GridClose]"

definition border_part :: "real \<Rightarrow> prim" where
  "border_part sz =
     Border (Num (borderOffset sz)) (Num (borderOffset sz)) (Num (borderSize sz))
       (Num (borderSize sz)) borderThickness"

text \<open>One wave: the inner loop \<open>for (i = 0; i <= detail; i++)\<close>.\<close>

definition wave_part :: "int list \<Rightarrow> real \<Rightarrow> tuned \<Rightarrow> nat \<Rightarrow> prim" where
  "wave_part bytes sz tw w =
     (let waveAngle = (real w * 2 * pi) / real (nWaves bytes);
          pts = map (\<lambda>i.
                  let t = (real i / real detail) * pi * 2;
                      r = radialAt t (f1 tw) (amplitude bytes) (curveMaxPx sz)
                            (keepout (innerAccent bytes) sz) thickness (gamma tw) (ampScale tw);
                      ang = real_of_int (freq2 bytes) * t + waveAngle
                  in (Num (sz / 2 + r * cos ang), Num (sz / 2 + r * sin ang))) [0..<Suc detail]
      in Wave pts thickness)"

definition wave_parts :: "int list \<Rightarrow> real \<Rightarrow> prim list" where
  "wave_parts bytes sz =
     (let tw = tuneWaves (real_of_int (freq1 bytes)) (amplitude bytes) (curveMaxPx sz) thickness
      in map (wave_part bytes sz tw) [0..<nWaves bytes])"

text \<open>The test \<open>byteIdx < bytes.length && ((bytes[byteIdx] >> bitIdx) & 1)\<close> of slot \<open>i\<close>.\<close>

definition slot_set :: "int list \<Rightarrow> nat \<Rightarrow> bool" where
  "slot_set bytes i =
     (let byteIdx = drop_bit 3 i; bitIdx = i AND 7
      in byteIdx < length bytes \<and> (drop_bit bitIdx (bytes ! byteIdx)) AND 1 \<noteq> 0)"

definition block_part :: "real \<Rightarrow> nat \<Rightarrow> prim" where
  "block_part sz i =
     (let p = permIdx i;
          side = p div blocksPerSide;
          posOnSide = real (p mod blocksPerSide) / real blocksPerSide;
          blockStart = borderOffset sz + borderSize sz;
          along = borderOffset sz + posOnSide * borderSize sz - blockWidth sz / 2
      in if side = 0 then
           Marker (Num along) (Num (borderOffset sz - blockLength sz))
             (Num (blockWidth sz)) (Num (blockLength sz))
         else if side = 1 then
           Marker (Num blockStart) (Num along) (Num (blockLength sz)) (Num (blockWidth sz))
         else if side = 2 then
           Marker (Num along) (Num blockStart) (Num (blockWidth sz)) (Num (blockLength sz))
         else
           Marker (Num (borderOffset sz - blockLength sz)) (Num along)
             (Num (blockLength sz)) (Num (blockWidth sz)))"

definition block_parts :: "int list \<Rightarrow> real \<Rightarrow> prim list" where
  "block_parts bytes sz =
     concat (map (\<lambda>i. if slot_set bytes i then [block_part sz i] else []) [0..<128])"

definition centerR :: "int \<Rightarrow> real \<Rightarrow> real" where
  "centerR ia sz = keepout ia sz * 0.75"

definition pushStar :: "real \<Rightarrow> real \<Rightarrow> real \<Rightarrow> bool \<Rightarrow> prim list" where
  "pushStar cx cy cr hollow =
     [GlyphPath
        (map (\<lambda>i. let ang = (real i * pi) / 5 - pi / 2;
                       rr = (if i mod 2 = 0 then cr else cr * 0.4)
                   in (Num (cx + rr * cos ang), Num (cy + rr * sin ang))) [0..<10])
        hollow thickness]"

definition pushTriangle :: "real \<Rightarrow> real \<Rightarrow> real \<Rightarrow> bool \<Rightarrow> prim list" where
  "pushTriangle cx cy cr hollow =
     [GlyphPath
        (map (\<lambda>i. let ang = (real i * 2 * pi) / 3 - pi / 2
                   in (Num (cx + cr * cos ang), Num (cy + cr * sin ang))) [0..<3])
        hollow thickness]"

definition pushDot :: "real \<Rightarrow> real \<Rightarrow> real \<Rightarrow> prim list" where
  "pushDot cx cy cr = [Dot (Num cx) (Num cy) (Num cr)]"

definition pushConcentric :: "real \<Rightarrow> real \<Rightarrow> real \<Rightarrow> prim list" where
  "pushConcentric cx cy cr =
     map (\<lambda>i. Ring (Num cx) (Num cy) (Num (cr * (0.4 + real i * 0.3))) (thickness * 0.8)) [0..<3]"

definition pushPolygon :: "real \<Rightarrow> real \<Rightarrow> real \<Rightarrow> bool \<Rightarrow> nat \<Rightarrow> prim list" where
  "pushPolygon cx cy cr hollow nSides =
     [GlyphPath
        (map (\<lambda>i. let ang = (real i * 2 * pi) / real nSides - pi / 2
                   in (Num (cx + cr * cos ang), Num (cy + cr * sin ang))) [0..<nSides])
        hollow thickness]"

definition center_parts :: "int list \<Rightarrow> real \<Rightarrow> prim list" where
  "center_parts bytes sz =
     (let ia = innerAccent bytes; cr = centerR ia sz; cx = sz / 2; cy = sz / 2;
          hollow = centerHollow bytes
      in if cr > 0 then
           (if ia = 0 then pushStar cx cy cr hollow
            else if ia = 1 then pushTriangle cx cy cr hollow
            else if ia = 2 then pushDot cx cy cr
            else if ia = 3 then pushConcentric cx cy cr
            else if ia \<ge> 5 \<and> ia \<le> 9 then pushPolygon cx cy cr hollow (nat (ia - 1))
            else [])
         else [])"

text \<open>The array \<open>parts\<close> at the end of \<open>generateIdentipattern\<close>, before formatting, for
  a size that is a number.\<close>

definition draw :: "int list \<Rightarrow> real \<Rightarrow> bool \<Rightarrow> prim list" where
  "draw bytes sz showGrid =
     [SvgOpen (Value sz), Background (Value sz)] @
     (if showGrid then grid_parts sz else []) @
     [border_part sz] @
     wave_parts bytes sz @
     block_parts bytes sz @
     center_parts bytes sz @
     [SvgClose]"

text \<open>
  The same array when \<open>size\<close> is \<open>undefined\<close> and the grid is off. Arithmetic converts
  \<open>undefined\<close> to NaN, an arithmetic operation, \<open>Math.max\<close> or \<open>Math.min\<close> with a NaN
  operand is NaN, and a comparison with NaN is false. Hence:
  \<^item> \<open>${size}\<close> prints \<open>undefined\<close> in the first two parts;
  \<^item> \<open>borderSize\<close>, \<open>borderOffset\<close>, \<open>blockWidth\<close>, \<open>blockLength\<close>, \<open>cx\<close> and \<open>cy\<close> are NaN, so
    are the four numbers of the border and of every marker, and both coordinates
    \<open>cx + r * cos(ang)\<close>, \<open>cy + r * sin(ang)\<close> of every wave point, whatever \<open>r\<close> is
    (\<open>tuneWaves\<close> and \<open>radialAt\<close> only compute with \<open>Math\<close> functions and throw nothing);
  \<^item> the number of waves and the marker slots depend on the bytes only;
  \<^item> \<open>keepout > 0\<close> is false for the NaN products and for 0, so \<open>keepout\<close> and \<open>centerR\<close>
    are 0, \<open>centerR > 0\<close> is false and no glyph is pushed;
  \<^item> the stroke widths derive from \<open>thickness\<close> and are unchanged.
\<close>

definition draw_undefined :: "int list \<Rightarrow> prim list" where
  "draw_undefined bytes =
     [SvgOpen Undefined, Background Undefined] @
     [Border NaN NaN NaN NaN borderThickness] @
     map (\<lambda>w. Wave (map (\<lambda>i. (NaN, NaN)) [0..<Suc detail]) thickness) [0..<nWaves bytes] @
     concat (map (\<lambda>i. if slot_set bytes i then [Marker NaN NaN NaN NaN] else []) [0..<128]) @
     [SvgClose]"

text \<open>
  The options of a call. A property of the object may be absent (\<open>None\<close>), or present
  with a value, which for an optional property may be \<open>undefined\<close>.
\<close>

record Options =
  opt_size :: "real js_value option"
  opt_showGrid :: "bool js_value option"

text \<open>\<open>{ ...DEFAULTS, ...options }\<close> with \<open>DEFAULTS = { size: 120, showGrid: false }\<close>: a
  property that is present in \<open>options\<close> replaces the default, also when its value is
  \<open>undefined\<close>.\<close>

definition resolved_size :: "Options \<Rightarrow> real js_value" where
  "resolved_size options = (case opt_size options of None \<Rightarrow> Value 120 | Some v \<Rightarrow> v)"

text \<open>\<open>showGrid\<close> is only tested by \<open>if (showGrid)\<close>, where \<open>undefined\<close> counts as false.\<close>

definition resolved_showGrid :: "Options \<Rightarrow> bool" where
  "resolved_showGrid options =
     (case opt_showGrid options of None \<Rightarrow> False | Some Undefined \<Rightarrow> False | Some (Value g) \<Rightarrow> g)"

text \<open>
  The primitives of a call, or the error it throws. The validation comes first. With
  \<open>size\<close> undefined and the grid on, the first grid line evaluates \<open>r2(size)\<close>, that is
  \<open>undefined.toFixed(2)\<close>, which throws a \<open>TypeError\<close>; nothing before it throws.
\<close>

definition generate_prims :: "string \<Rightarrow> Options \<Rightarrow> error + prim list" where
  "generate_prims hashHex options =
     (if \<not> hash_regex_test hashHex then Inl (Error ''hash must be 64 hex characters'')
      else case resolved_size options of
             Value sz \<Rightarrow> Inr (draw (parseBytes hashHex) sz (resolved_showGrid options))
           | Undefined \<Rightarrow>
               if resolved_showGrid options then Inl TypeError
               else Inr (draw_undefined (parseBytes hashHex)))"

text \<open>\<open>generateIdentipattern\<close>: the primitives formatted and joined with \<open>parts.join('')\<close>.\<close>

definition generateIdentipattern :: "(real \<Rightarrow> string) \<Rightarrow> string \<Rightarrow> Options \<Rightarrow> error + string" where
  "generateIdentipattern nts hashHex options =
     (case generate_prims hashHex options of
        Inl e \<Rightarrow> Inl e
      | Inr prims \<Rightarrow> Inr (concat (map (render nts) prims)))"

subsection \<open>Reference notions used by the verification\<close>

text \<open>The reference hash in the words of the specification: the accumulator starts at
  5381, each byte of the window that lies inside the array turns it into
  \<open>acc * 33 + byte\<close> wrapped to a signed 32-bit integer, and the result is the final
  accumulator read as an unsigned 32-bit integer.\<close>

definition wrap_s32 :: "int \<Rightarrow> int" where
  "wrap_s32 x = (x + 2 ^ 31) mod 2 ^ 32 - 2 ^ 31"

definition djb2_ref :: "int list \<Rightarrow> nat \<Rightarrow> nat \<Rightarrow> int" where
  "djb2_ref bytes start len =
     foldl (\<lambda>acc b. wrap_s32 (acc * 33 + b)) 5381
       (map (\<lambda>i. bytes ! i) (filter (\<lambda>i. i < length bytes) [start..<start + len])) mod 2 ^ 32"

text \<open>A decoded hash: 32 values, each a byte.\<close>

definition is_hash_bytes :: "int list \<Rightarrow> bool" where
  "is_hash_bytes bytes = (length bytes = 32 \<and> list_all (\<lambda>b. 0 \<le> b \<and> b \<le> 255) bytes)"

text \<open>A string of exactly 64 hexadecimal characters, in either case.\<close>

definition is_hex64 :: "string \<Rightarrow> bool" where
  "is_hex64 s = (length s = 64 \<and> set s \<subseteq> set ''0123456789abcdefABCDEF'')"

text \<open>Upper-casing of the letters of a string (ASCII).\<close>

definition upper_unit :: "char \<Rightarrow> char" where
  "upper_unit c = (let n = code_unit c in if 97 \<le> n \<and> n \<le> 122 then char_of (n - 32) else c)"

definition upper_cased :: "string \<Rightarrow> string" where
  "upper_cased s = map upper_unit s"

definition lower_hex :: "char \<Rightarrow> bool" where
  "lower_hex c = (let n = code_unit c in (48 \<le> n \<and> n \<le> 57) \<or> (97 \<le> n \<and> n \<le> 102))"

text \<open>The marker rectangles and the centre glyphs among the primitives.\<close>

fun is_marker :: "prim \<Rightarrow> bool" where
  "is_marker (Marker x y w h) = True"
| "is_marker p = False"

fun is_glyph :: "prim \<Rightarrow> bool" where
  "is_glyph (GlyphPath pts hollow sw) = True"
| "is_glyph (Dot x y r) = True"
| "is_glyph (Ring x y r sw) = True"
| "is_glyph p = False"

text \<open>The marker rectangle of a slot, for either kind of size.\<close>

definition slot_marker :: "real js_value \<Rightarrow> nat \<Rightarrow> prim" where
  "slot_marker size_v i =
     (case size_v of Value sz \<Rightarrow> block_part sz i | Undefined \<Rightarrow> Marker NaN NaN NaN NaN)"

text \<open>The number of set bits among the low eight bits of a byte.\<close>

definition popcount8 :: "int \<Rightarrow> nat" where
  "popcount8 b = length (filter (\<lambda>k. bit b k) [0..<8])"

text \<open>
  The tuner in the words of the specification: a state has converged when the minimum
  sampled gap reaches \<open>minGapPx\<close>; otherwise one corrective step is applied, the first time
  to \<open>ampScale\<close>, the second time to \<open>gamma\<close>, the third time to \<open>f1\<close>.
\<close>

definition converged :: "real \<Rightarrow> real \<Rightarrow> real \<Rightarrow> tuned \<Rightarrow> bool" where
  "converged amp cmax minGapPx st =
     (case minGap_of amp cmax st of None \<Rightarrow> True | Some g \<Rightarrow> g \<ge> minGapPx)"

definition raise_ampScale :: "real \<Rightarrow> real \<Rightarrow> real \<Rightarrow> tuned \<Rightarrow> tuned" where
  "raise_ampScale amp cmax minGapPx st =
     (case minGap_of amp cmax st of
        None \<Rightarrow> st
      | Some g \<Rightarrow> st\<lparr>ampScale := min 1.25 (ampScale st * sqrt (minGapPx / max g (1 / 10 ^ 6)))\<rparr>)"

definition raise_gamma :: "tuned \<Rightarrow> tuned" where
  "raise_gamma st = st\<lparr>gamma := min 1.7 (gamma st + 0.2)\<rparr>"

definition lower_f1 :: "tuned \<Rightarrow> tuned" where
  "lower_f1 st = (if f1 st > 3 then st\<lparr>f1 := max 3 (f1 st - 1)\<rparr> else st)"

definition tune_steps :: "real \<Rightarrow> real \<Rightarrow> real \<Rightarrow> real \<Rightarrow> tuned" where
  "tune_steps fr amp cmax thick =
     (let mg = max (7 * thick) 6;
          s0 = \<lparr>f1 = fr, gamma = 1.35, ampScale = 1\<rparr>
      in if converged amp cmax mg s0 then s0
         else let s1 = raise_ampScale amp cmax mg s0
              in if converged amp cmax mg s1 then s1
                 else let s2 = raise_gamma s1
                      in if converged amp cmax mg s2 then s2 else lower_f1 s2)"

text \<open>Scaling of a primitive by a factor: every coordinate, length and radius is
  multiplied, the stroke widths are left as they are.\<close>

fun scale_num :: "real \<Rightarrow> jsnum \<Rightarrow> jsnum" where
  "scale_num k (Num x) = Num (k * x)"
| "scale_num k NaN = NaN"

fun scale_size :: "real \<Rightarrow> real js_value \<Rightarrow> real js_value" where
  "scale_size k (Value x) = Value (k * x)"
| "scale_size k Undefined = Undefined"

definition scale_point :: "real \<Rightarrow> jsnum \<times> jsnum \<Rightarrow> jsnum \<times> jsnum" where
  "scale_point k p = (scale_num k (fst p), scale_num k (snd p))"

fun scale_prim :: "real \<Rightarrow> prim \<Rightarrow> prim" where
  "scale_prim k (SvgOpen sz) = SvgOpen (scale_size k sz)"
| "scale_prim k (Background sz) = Background (scale_size k sz)"
| "scale_prim k GridOpen = GridOpen"
| "scale_prim k (GridV pos sz) = GridV (scale_num k pos) (scale_num k sz)"
| "scale_prim k (GridH pos sz) = GridH (scale_num k pos) (scale_num k sz)"
| "scale_prim k GridClose = GridClose"
| "scale_prim k (Border x y w h sw) =
     Border (scale_num k x) (scale_num k y) (scale_num k w) (scale_num k h) sw"
| "scale_prim k (Wave pts sw) = Wave (map (scale_point k) pts) sw"
| "scale_prim k (Marker x y w h) =
     Marker (scale_num k x) (scale_num k y) (scale_num k w) (scale_num k h)"
| "scale_prim k (GlyphPath pts hollow sw) = GlyphPath (map (scale_point k) pts) hollow sw"
| "scale_prim k (Dot x y r) = Dot (scale_num k x) (scale_num k y) (scale_num k r)"
| "scale_prim k (Ring x y r sw) = Ring (scale_num k x) (scale_num k y) (scale_num k r) sw"
| "scale_prim k SvgClose = SvgClose"

text \<open>The parts other than the waves and the centre glyph: background, grid, border and
  markers.\<close>

fun is_wave :: "prim \<Rightarrow> bool" where
  "is_wave (Wave pts sw) = True"
| "is_wave p = False"

definition is_frame :: "prim \<Rightarrow> bool" where
  "is_frame p = (\<not> is_wave p \<and> \<not> is_glyph p)"

text \<open>The stroke widths of the border and of the waves at their nominal values.\<close>

fun strokes_nominal :: "prim \<Rightarrow> bool" where
  "strokes_nominal (Border x y w h sw) = (sw = 0.63)"
| "strokes_nominal (Wave pts sw) = (sw = 0.7)"
| "strokes_nominal p = True"

text \<open>The first vertex of a glyph path.\<close>

fun first_vertex :: "prim \<Rightarrow> (jsnum \<times> jsnum) option" where
  "first_vertex (GlyphPath (p # pts) hollow sw) = Some p"
| "first_vertex q = None"

section \<open>Verification\<close>

subsection \<open>The windowed hash\<close>

lemma word_of_wrap_s32: "(word_of_int (wrap_s32 x) :: 32 word) = word_of_int x"
proof -
  have "wrap_s32 x mod 2 ^ 32 = x mod 2 ^ 32"
    unfolding wrap_s32_def by (simp add: mod_diff_left_eq mod_simps)
  then show ?thesis
    by (simp add: word_of_int_eq_iff take_bit_eq_mod)
qed

lemma word_of_js_shl5: "(word_of_int (js_shl5 h) :: 32 word) = word_of_int h * 32"
  by (simp add: js_shl5_def push_bit_eq_mult)

lemma word_of_step:
  "(word_of_int (js_shl5 h) :: 32 word) + word_of_int h + word_of_int b
   = word_of_int h * 33 + word_of_int b"
  by (simp add: word_of_js_shl5)

lemma foldl_ref_word:
  "(word_of_int (foldl (\<lambda>acc b. wrap_s32 (acc * 33 + b)) a xs) :: 32 word)
   = foldl (\<lambda>acc b. acc * 33 + word_of_int b) (word_of_int a) xs"
  by (induction xs arbitrary: a) (simp_all add: word_of_wrap_s32)

lemma hashSegment_loop_word:
  "(word_of_int (hashSegment_loop bytes stop i h) :: 32 word)
   = foldl (\<lambda>acc b. acc * 33 + word_of_int b) (word_of_int h)
       (map (\<lambda>j. bytes ! j) (filter (\<lambda>j. j < length bytes) [i..<stop]))"
proof (induction bytes stop i h rule: hashSegment_loop.induct)
  case (1 bytes stop i h)
  show ?case
  proof (cases "i < stop \<and> i < length bytes")
    case True
    then have "[i..<stop] = i # [Suc i..<stop]" by (simp add: upt_conv_Cons)
    with True "1.IH" show ?thesis
      by (subst hashSegment_loop.simps) (simp add: word_of_step)
  next
    case False
    then have "filter (\<lambda>j. j < length bytes) [i..<stop] = []"
      by (auto simp: filter_empty_conv)
    moreover from False have "hashSegment_loop bytes stop i h = h"
      by (subst hashSegment_loop.simps) auto
    ultimately show ?thesis by simp
  qed
qed

lemma hashSegment_eq_ref: "hashSegment bytes start len = djb2_ref bytes start len"
proof -
  let ?xs = "map (\<lambda>i. bytes ! i) (filter (\<lambda>i. i < length bytes) [start..<start + len])"
  have "(word_of_int (hashSegment_loop bytes (start + len) start 5381) :: 32 word)
        = word_of_int (foldl (\<lambda>acc b. wrap_s32 (acc * 33 + b)) 5381 ?xs)"
    by (simp add: hashSegment_loop_word foldl_ref_word)
  then have "uint (word_of_int (hashSegment_loop bytes (start + len) start 5381) :: 32 word)
        = foldl (\<lambda>acc b. wrap_s32 (acc * 33 + b)) 5381 ?xs mod 2 ^ 32"
    by (simp add: uint_word_of_int)
  then show ?thesis
    by (simp add: hashSegment_def js_ushr0_def djb2_ref_def)
qed

lemma hashSegment_range: "0 \<le> hashSegment bytes start len \<and> hashSegment bytes start len < 2 ^ 32"
  by (simp add: hashSegment_eq_ref djb2_ref_def)

text \<open>
  The accumulator of the source is not wrapped, but on a decoded hash it stays far below
  \<open>2\<^sup>5\<^sup>3\<close>, so that the arithmetic on JavaScript numbers is exact.
\<close>

lemma js_shl5_bound: "\<bar>js_shl5 h\<bar> \<le> 2 ^ 31"
proof -
  have "- (2 ^ 31) \<le> sint (push_bit 5 (word_of_int h :: 32 word))"
    using sint_ge [of "push_bit 5 (word_of_int h :: 32 word)"] by simp
  moreover have "sint (push_bit 5 (word_of_int h :: 32 word)) < 2 ^ 31"
    using sint_lt [of "push_bit 5 (word_of_int h :: 32 word)"] by simp
  ultimately show ?thesis by (simp add: js_shl5_def abs_le_iff)
qed

lemma hashSegment_loop_bound:
  "list_all (\<lambda>b. 0 \<le> b \<and> b \<le> 255) bytes \<Longrightarrow>
   \<bar>hashSegment_loop bytes stop i h\<bar> \<le> \<bar>h\<bar> + int (length bytes - i) * (2 ^ 31 + 255)"
proof (induction bytes stop i h rule: hashSegment_loop.induct)
  case (1 bytes stop i h)
  show ?case
  proof (cases "i < stop \<and> i < length bytes")
    case True
    then have b: "0 \<le> bytes ! i \<and> bytes ! i \<le> 255"
      using "1.prems" by (simp add: list_all_length)
    have "\<bar>hashSegment_loop bytes stop (Suc i) (js_shl5 h + h + bytes ! i)\<bar>
          \<le> \<bar>js_shl5 h + h + bytes ! i\<bar> + int (length bytes - Suc i) * (2 ^ 31 + 255)"
      using "1.IH" True "1.prems" by simp
    moreover have "\<bar>js_shl5 h + h + bytes ! i\<bar> \<le> 2 ^ 31 + \<bar>h\<bar> + 255"
      using js_shl5_bound [of h] b by linarith
    moreover have "int (length bytes - i) = int (length bytes - Suc i) + 1"
      using True by simp
    ultimately have "\<bar>hashSegment_loop bytes stop (Suc i) (js_shl5 h + h + bytes ! i)\<bar>
          \<le> \<bar>h\<bar> + int (length bytes - i) * (2 ^ 31 + 255)"
      by (simp add: algebra_simps)
    with True show ?thesis by (subst hashSegment_loop.simps) simp
  next
    case False
    then have "hashSegment_loop bytes stop i h = h"
      by (subst hashSegment_loop.simps) auto
    then show ?thesis by simp
  qed
qed

lemma hashSegment_exact:
  assumes "is_hash_bytes bytes"
  shows "\<bar>hashSegment_loop bytes (start + len) start 5381\<bar> < 2 ^ 53"
proof -
  from assms have a: "list_all (\<lambda>b. 0 \<le> b \<and> b \<le> 255) bytes" and l: "length bytes = 32"
    by (simp_all add: is_hash_bytes_def)
  have "int (length bytes - start) \<le> 32" using l by simp
  then have "int (length bytes - start) * (2 ^ 31 + 255) \<le> 32 * (2 ^ 31 + 255)"
    by (rule mult_right_mono) simp
  with hashSegment_loop_bound [OF a, of "start + len" start 5381] show ?thesis by simp
qed

lemma word_of_hashSegment:
  "(word_of_int (hashSegment bytes start len) :: 32 word)
   = foldl (\<lambda>acc b. acc * 33 + word_of_int b) 5381
       (map (\<lambda>j. bytes ! j) (filter (\<lambda>j. j < length bytes) [start..<start + len]))"
proof -
  have m: "(word_of_int (x mod 2 ^ 32) :: 32 word) = word_of_int x" for x
    by (simp add: word_of_int_eq_iff take_bit_eq_mod)
  show ?thesis
    unfolding hashSegment_eq_ref djb2_ref_def m by (simp add: foldl_ref_word)
qed

lemma centerHollow_even: "29 < length bytes \<Longrightarrow> centerHollow bytes \<longleftrightarrow> even (bytes ! 29)"
proof -
  assume l: "29 < length bytes"
  have "[29..<29 + 1] = [29::nat]" by simp
  then have w: "(word_of_int (hashSegment bytes 29 1) :: 32 word) = 177573 + word_of_int (bytes ! 29)"
    using l by (simp add: word_of_hashSegment del: upt_Suc)
  have p: "odd (177573 + word_of_int (bytes ! 29) :: 32 word) \<longleftrightarrow> even (bytes ! 29)"
    by (simp add: even_of_int_iff)
  have "sint (x AND 1) = (if odd x then 1 else 0)" for x :: "32 word"
    by (simp add: and_one_eq mod_2_eq_odd)
  then show ?thesis
    unfolding centerHollow_def w using p by simp
qed

subsection \<open>Validation and decoding\<close>

lemma match_hex_rep_iff: "match_hex_rep k s \<longleftrightarrow> length s = k \<and> list_all hex_class_ci s"
  by (induction k s rule: match_hex_rep.induct) auto

lemma char_eq_code_unit: "c = d \<longleftrightarrow> code_unit c = code_unit d"
  by (auto simp: code_unit_def)

lemma code_unit_less: "code_unit c < 256"
  by (simp add: code_unit_def)

lemma code_unit_char_of: "n < 256 \<Longrightarrow> code_unit (char_of n) = n"
  by (simp add: code_unit_def)

lemma code_unit_Char:
  "code_unit (Char b0 b1 b2 b3 b4 b5 b6 b7) = of_char (Char b0 b1 b2 b3 b4 b5 b6 b7)"
  by (simp add: code_unit_def)

lemma inj_code_unit: "inj code_unit"
  by (simp add: inj_on_def code_unit_def)

lemma hex_class_ci_iff: "hex_class_ci c \<longleftrightarrow> c \<in> set ''0123456789abcdefABCDEF''"
proof -
  have "c \<in> set ''0123456789abcdefABCDEF''
        \<longleftrightarrow> code_unit c \<in> code_unit ` set ''0123456789abcdefABCDEF''"
    by (rule inj_image_mem_iff [OF inj_code_unit, symmetric])
  also have "code_unit ` set ''0123456789abcdefABCDEF'' =
     {48, 49, 50, 51, 52, 53, 54, 55, 56, 57, 97, 98, 99, 100, 101, 102, 65, 66, 67, 68, 69, 70}"
    by (simp add: code_unit_Char)
  also have "code_unit c \<in>
     {48, 49, 50, 51, 52, 53, 54, 55, 56, 57, 97, 98, 99, 100, 101, 102, 65, 66, 67, 68, 69, 70}
     \<longleftrightarrow> hex_class_ci c"
    unfolding hex_class_ci_def Let_def by (simp; presburger)
  finally show ?thesis by simp
qed

lemma hash_regex_test_iff: "hash_regex_test s \<longleftrightarrow> is_hex64 s"
  unfolding hash_regex_test_def match_hex_rep_iff is_hex64_def list_all_iff hex_class_ci_iff
  by blast

lemma lower_hex_toLowerCase: "hex_class_ci c \<Longrightarrow> lower_hex (toLowerCase_unit c)"
  unfolding hex_class_ci_def lower_hex_def toLowerCase_unit_def Let_def
  by (auto simp: code_unit_char_of)

lemma lower_hex_not_space: "lower_hex c \<Longrightarrow> \<not> is_js_space c"
  by (auto simp: lower_hex_def is_js_space_def Let_def)

lemma lower_hex_not_sign: "lower_hex c \<Longrightarrow> c \<noteq> CHR ''-'' \<and> c \<noteq> CHR ''+'' \<and> c \<noteq> CHR ''x'' \<and> c \<noteq> CHR ''X''"
proof -
  assume "lower_hex c"
  then have "code_unit c \<noteq> 45 \<and> code_unit c \<noteq> 43 \<and> code_unit c \<noteq> 120 \<and> code_unit c \<noteq> 88"
    by (auto simp: lower_hex_def Let_def)
  moreover have "code_unit (CHR ''-'') = 45" "code_unit (CHR ''+'') = 43"
    "code_unit (CHR ''x'') = 120" "code_unit (CHR ''X'') = 88"
    by (simp_all add: code_unit_Char)
  ultimately show ?thesis by metis
qed

lemma lower_hex_digit: "lower_hex c \<Longrightarrow> \<exists>d. hex_digit_val c = Some d \<and> d \<le> 15"
  by (auto simp: lower_hex_def hex_digit_val_def Let_def)

lemma parseInt16_pair:
  assumes a: "lower_hex a" and b: "lower_hex b"
  shows "\<exists>v. parseInt16 [a, b] = Some v \<and> 0 \<le> v \<and> v \<le> 255"
proof -
  from lower_hex_digit [OF a] obtain da where da: "hex_digit_val a = Some da" "da \<le> 15" by blast
  from lower_hex_digit [OF b] obtain db where db: "hex_digit_val b = Some db" "db \<le> 15" by blast
  have "parseInt16 [a, b] = Some (16 * int da + int db)"
    using lower_hex_not_space [OF a] lower_hex_not_sign [OF a] lower_hex_not_sign [OF b] da db
    by (simp add: parseInt16_def)
  with da db show ?thesis by simp
qed

lemma parseBytes_loop_hex:
  "match_hex_rep (2 * k) s \<Longrightarrow>
   length (parseBytes_loop (toLowerCase s)) = k
   \<and> list_all (\<lambda>b. 0 \<le> b \<and> b \<le> 255) (parseBytes_loop (toLowerCase s))"
proof (induction k arbitrary: s)
  case 0
  then show ?case by (simp add: toLowerCase_def)
next
  case (Suc k)
  from Suc.prems obtain a b rest where s: "s = a # b # rest"
    and ha: "hex_class_ci a" and hb: "hex_class_ci b" and r: "match_hex_rep (2 * k) rest"
    by (cases s; simp; cases "tl s"; auto)
  from parseInt16_pair [OF lower_hex_toLowerCase [OF ha] lower_hex_toLowerCase [OF hb]]
  obtain v where v: "parseInt16 [toLowerCase_unit a, toLowerCase_unit b] = Some v" "0 \<le> v" "v \<le> 255"
    by blast
  from Suc.IH [OF r] v show ?case
    by (simp add: s toLowerCase_def)
qed

lemma parseBytes_valid: "hash_regex_test h \<Longrightarrow> is_hash_bytes (parseBytes h)"
  using parseBytes_loop_hex [of 32 h]
  by (simp add: hash_regex_test_def parseBytes_def is_hash_bytes_def)

lemma lower_upper_unit: "toLowerCase_unit (upper_unit c) = toLowerCase_unit c"
  unfolding toLowerCase_unit_def upper_unit_def Let_def
  by (auto simp: code_unit_char_of char_eq_code_unit [of _ c] code_unit_less)

lemma hex_class_upper_unit: "hex_class_ci (upper_unit c) = hex_class_ci c"
  unfolding hex_class_ci_def upper_unit_def Let_def
  by (auto simp: code_unit_char_of)

lemma toLowerCase_upper_cased: "toLowerCase (upper_cased s) = toLowerCase s"
  by (simp add: toLowerCase_def upper_cased_def lower_upper_unit)

lemma parseBytes_upper_cased: "parseBytes (upper_cased s) = parseBytes s"
  by (simp add: parseBytes_def toLowerCase_upper_cased)

lemma hash_regex_test_upper_cased: "hash_regex_test (upper_cased s) = hash_regex_test s"
  by (simp add: hash_regex_test_def match_hex_rep_iff upper_cased_def list_all_iff hex_class_upper_unit)

subsection \<open>The marker permutation\<close>

lemma permIdx_mod: "permIdx i = (i * 73) mod 128"
proof -
  have "(i * 73) AND 127 = take_bit 7 (i * 73)"
    by (simp add: take_bit_eq_mask mask_eq_exp_minus_1)
  then show ?thesis
    by (simp add: permIdx_def take_bit_eq_mod)
qed

lemma permIdx_less: "permIdx i < 128"
  by (simp add: permIdx_mod)

text \<open>121 is the inverse of 73 modulo 128: \<open>73 * 121 = 69 * 128 + 1\<close>.\<close>

lemma permIdx_inverse: "(permIdx i * 121) mod 128 = i mod 128"
proof -
  have "(permIdx i * 121) mod 128 = (i * 73 * 121) mod 128"
    by (simp add: permIdx_mod mod_mult_left_eq)
  also have "i * 73 * 121 = i + 128 * (69 * i)" by simp
  also have "(i + 128 * (69 * i)) mod 128 = i mod 128" by (rule mod_mult_self2)
  finally show ?thesis .
qed

lemma permIdx_forward: "permIdx ((j * 121) mod 128) = j mod 128"
proof -
  have "permIdx ((j * 121) mod 128) = (j * 121 * 73) mod 128"
    by (simp add: permIdx_mod mod_mult_left_eq)
  also have "j * 121 * 73 = j + 128 * (69 * j)" by simp
  also have "(j + 128 * (69 * j)) mod 128 = j mod 128" by (rule mod_mult_self2)
  finally show ?thesis .
qed

text \<open>
  Claim C9. The slot-to-position mapping of the source, \<open>permIdx i = (i * 73) & 127\<close>, is the
  map \<open>i \<mapsto> (i * 73) mod 128\<close>, it is a bijection on \<open>{0, ..., 127}\<close>, and its image of that
  set has exactly 128 elements.
\<close>

theorem permIdx_bijection:
  "bij_betw permIdx {..<128} {..<128} \<and> card (permIdx ` {..<128}) = 128
   \<and> permIdx = (\<lambda>i. (i * 73) mod 128)"
proof -
  have inj: "inj_on permIdx {..<128}"
  proof (rule inj_onI)
    fix x y
    assume x: "x \<in> {..<(128::nat)}" and y: "y \<in> {..<(128::nat)}"
      and e: "permIdx x = permIdx y"
    have "x mod 128 = y mod 128"
      using permIdx_inverse [of x] permIdx_inverse [of y] e by simp
    with x y show "x = y" by simp
  qed
  have img: "permIdx ` {..<128} = {..<128}"
  proof
    show "permIdx ` {..<128} \<subseteq> {..<128}" using permIdx_less by auto
    show "{..<128} \<subseteq> permIdx ` {..<128}"
    proof
      fix j assume "j \<in> {..<(128::nat)}"
      then have "permIdx ((j * 121) mod 128) = j" using permIdx_forward [of j] by simp
      moreover have "(j * 121) mod 128 \<in> {..<(128::nat)}" by simp
      ultimately show "j \<in> permIdx ` {..<128}" by (metis imageI)
    qed
  qed
  from inj img have "bij_betw permIdx {..<128} {..<128}" by (simp add: bij_betw_def)
  moreover from img have "card (permIdx ` {..<128}) = 128" by simp
  moreover have "permIdx = (\<lambda>i. (i * 73) mod 128)" by (rule ext) (rule permIdx_mod)
  ultimately show ?thesis by blast
qed

subsection \<open>Claims about the windowed hash\<close>

text \<open>
  Claim C3. For every sequence of 32 bytes, every start and every length, \<open>hashSegment\<close>
  equals the DJB2-style reference: from 5381, each byte of the window inside the array
  turns the accumulator into \<open>acc * 33 + byte\<close> with 32-bit wrap-around, and the result is
  the final accumulator as an unsigned 32-bit integer.
\<close>

theorem hashSegment_djb2:
  "is_hash_bytes bytes \<Longrightarrow>
   hashSegment bytes start len = djb2_ref bytes start len
   \<and> 0 \<le> hashSegment bytes start len \<and> hashSegment bytes start len < 2 ^ 32"
  using hashSegment_eq_ref [of bytes start len] hashSegment_range [of bytes start len] by simp

theorem hashSegment_djb2_witness:
  "is_hash_bytes (replicate 32 255)
   \<and> hashSegment (replicate 32 255) 0 8 = djb2_ref (replicate 32 255) 0 8
   \<and> djb2_ref (replicate 32 255) 0 8 = 3824348797
   \<and> djb2_ref (replicate 32 255) 28 8 = 2095923905"
proof -
  have h: "is_hash_bytes (replicate 32 255)" by (simp add: is_hash_bytes_def list_all_iff)
  have "djb2_ref (replicate 32 255) 0 8 = 3824348797" by code_simp
  moreover have "djb2_ref (replicate 32 255) 28 8 = 2095923905" by code_simp
  ultimately show ?thesis using h hashSegment_djb2 [OF h, of 0 8] by simp
qed

text \<open>
  Claim C6, as amended. For every valid hash, \<open>centerHollow\<close> is bit 0 of
  \<open>hashSegment(29, 1) = 5381 * 33 + byte\<^sub>2\<^sub>9\<close>; since \<open>177573\<close> is odd, the flag holds exactly
  when the lowest bit of the byte at offset 29 is 0 (not 1, as the claim has it).
\<close>

theorem centerHollow_lowest_bit_clear:
  "hash_regex_test h \<Longrightarrow> centerHollow (parseBytes h) \<longleftrightarrow> (parseBytes h ! 29) AND 1 = 0"
  using centerHollow_even [of "parseBytes h"] parseBytes_valid [of h]
  by (auto simp: is_hash_bytes_def and_one_eq even_iff_mod_2_eq_zero)

theorem centerHollow_lowest_bit_clear_witness:
  "hash_regex_test (replicate 64 (CHR ''0''))
   \<and> (parseBytes (replicate 64 (CHR ''0'')) ! 29) AND 1 = 0
   \<and> centerHollow (parseBytes (replicate 64 (CHR ''0'')))"
proof -
  have h: "hash_regex_test (replicate 64 (CHR ''0''))" by code_simp
  have b: "(parseBytes (replicate 64 (CHR ''0'')) ! 29) AND 1 = 0" by code_simp
  from centerHollow_lowest_bit_clear [OF h] b h show ?thesis by simp
qed

text \<open>
  The claim as stated fails on the hash of 64 zeros: byte 29 is 0, its lowest bit is 0,
  and \<open>centerHollow\<close> is true.
\<close>

theorem centerHollow_lowest_bit_counterexample:
  "hash_regex_test (replicate 64 (CHR ''0''))
   \<and> \<not> (centerHollow (parseBytes (replicate 64 (CHR ''0'')))
          \<longleftrightarrow> (parseBytes (replicate 64 (CHR ''0'')) ! 29) AND 1 = 1)"
  by code_simp

subsection \<open>Claims about validation and case\<close>

text \<open>
  The outcomes of a call: the validation error exactly on an invalid hash, a \<open>TypeError\<close>
  exactly on a valid hash with \<open>size\<close> undefined and the grid on, and a string
  otherwise.
\<close>

lemma generate_outcomes:
  "(generateIdentipattern nts h opts = Inl (Error ''hash must be 64 hex characters'') \<longleftrightarrow> \<not> is_hex64 h)
   \<and> (generateIdentipattern nts h opts = Inl TypeError
        \<longleftrightarrow> is_hex64 h \<and> resolved_size opts = Undefined \<and> resolved_showGrid opts)
   \<and> ((\<exists>out. generateIdentipattern nts h opts = Inr out)
        \<longleftrightarrow> is_hex64 h \<and> \<not> (resolved_size opts = Undefined \<and> resolved_showGrid opts))"
  by (cases "resolved_size opts")
    (auto simp: generateIdentipattern_def generate_prims_def hash_regex_test_iff)

lemma generate_validation_examples:
  "generateIdentipattern nts (replicate 63 (CHR ''a'')) opts
     = Inl (Error ''hash must be 64 hex characters'')
   \<and> generateIdentipattern nts (replicate 65 (CHR ''a'')) opts
     = Inl (Error ''hash must be 64 hex characters'')
   \<and> generateIdentipattern nts (replicate 63 (CHR ''a'') @ ''g'') opts
     = Inl (Error ''hash must be 64 hex characters'')
   \<and> generateIdentipattern nts (replicate 64 (CHR ''f'')) \<lparr>opt_size = None, opt_showGrid = None\<rparr>
     \<noteq> Inl (Error ''hash must be 64 hex characters'')
   \<and> generateIdentipattern nts (replicate 64 (CHR ''0'')) \<lparr>opt_size = None, opt_showGrid = None\<rparr>
     \<noteq> Inl (Error ''hash must be 64 hex characters'')"
proof -
  have "\<not> is_hex64 (replicate 63 (CHR ''a''))" by (simp add: is_hex64_def)
  moreover have "\<not> is_hex64 (replicate 65 (CHR ''a''))" by (simp add: is_hex64_def)
  moreover have "\<not> is_hex64 (replicate 63 (CHR ''a'') @ ''g'')" by (simp add: is_hex64_def)
  moreover have "is_hex64 (replicate 64 (CHR ''f''))" by (simp add: is_hex64_def)
  moreover have "is_hex64 (replicate 64 (CHR ''0''))" by (simp add: is_hex64_def)
  ultimately show ?thesis
    using generate_outcomes [of nts "replicate 63 (CHR ''a'')" opts]
      generate_outcomes [of nts "replicate 65 (CHR ''a'')" opts]
      generate_outcomes [of nts "replicate 63 (CHR ''a'') @ ''g''" opts]
      generate_outcomes [of nts "replicate 64 (CHR ''f'')" "\<lparr>opt_size = None, opt_showGrid = None\<rparr>"]
      generate_outcomes [of nts "replicate 64 (CHR ''0'')" "\<lparr>opt_size = None, opt_showGrid = None\<rparr>"]
    by blast
qed

text \<open>
  Claim C2. The claim holds of the validation: the \<open>Error\<close> is thrown exactly when the hash
  is not a string of 64 hexadecimal characters (lemma \<open>generate_outcomes\<close>, and
  \<open>generate_validation_examples\<close> for the five inputs the claim names). Its last part,
  that no other error exists and every valid hash produces an output, fails on the
  code: for the valid hash of 64 \<open>f\<close> and the options \<open>{ size: undefined, showGrid: true }\<close>
  the merged \<open>size\<close> is \<open>undefined\<close>, not the default, and the first grid line calls
  \<open>undefined.toFixed(2)\<close>, which throws a \<open>TypeError\<close>.
\<close>

theorem generate_undefined_size_throws:
  "is_hex64 (replicate 64 (CHR ''f''))
   \<and> generateIdentipattern nts (replicate 64 (CHR ''f''))
         \<lparr>opt_size = Some Undefined, opt_showGrid = Some (Value True)\<rparr> = Inl TypeError"
proof -
  have v: "is_hex64 (replicate 64 (CHR ''f''))" by (simp add: is_hex64_def)
  then show ?thesis
    by (simp add: generateIdentipattern_def generate_prims_def hash_regex_test_iff
        resolved_size_def resolved_showGrid_def)
qed

text \<open>
  Claim C10. Generation is case-insensitive end to end: for every valid hash and all
  options, the hash and its upper-cased form have the same outcome, which is the same
  output string whenever the call returns (it does unless \<open>size\<close> is undefined with the
  grid on, where both calls throw alike).
\<close>

theorem generate_case_insensitive:
  "hash_regex_test h \<Longrightarrow>
   generateIdentipattern nts (upper_cased h) opts = generateIdentipattern nts h opts
   \<and> (\<not> (resolved_size opts = Undefined \<and> resolved_showGrid opts)
        \<longrightarrow> (\<exists>out. generateIdentipattern nts h opts = Inr out
                 \<and> generateIdentipattern nts (upper_cased h) opts = Inr out))"
  by (cases "resolved_size opts")
    (auto simp: generateIdentipattern_def generate_prims_def hash_regex_test_upper_cased
      parseBytes_upper_cased)

theorem generate_case_insensitive_witness:
  "hash_regex_test (concat (replicate 4 ''0123abcd'') @ concat (replicate 4 ''89efEF67''))
   \<and> upper_cased (concat (replicate 4 ''0123abcd'') @ concat (replicate 4 ''89efEF67''))
       = concat (replicate 4 ''0123ABCD'') @ concat (replicate 4 ''89EFEF67'')
   \<and> (\<exists>out. generateIdentipattern (\<lambda>x. ''120'')
          (concat (replicate 4 ''0123abcd'') @ concat (replicate 4 ''89efEF67''))
          \<lparr>opt_size = Some (Value 64), opt_showGrid = Some (Value True)\<rparr> = Inr out
        \<and> generateIdentipattern (\<lambda>x. ''120'')
          (concat (replicate 4 ''0123ABCD'') @ concat (replicate 4 ''89EFEF67''))
          \<lparr>opt_size = Some (Value 64), opt_showGrid = Some (Value True)\<rparr> = Inr out)"
proof -
  let ?h = "concat (replicate 4 ''0123abcd'') @ concat (replicate 4 ''89efEF67'')"
  let ?o = "\<lparr>opt_size = Some (Value 64), opt_showGrid = Some (Value True)\<rparr>"
  have h: "hash_regex_test ?h" by code_simp
  have u: "upper_cased ?h = concat (replicate 4 ''0123ABCD'') @ concat (replicate 4 ''89EFEF67'')"
    by code_simp
  have n: "\<not> (resolved_size ?o = Undefined \<and> resolved_showGrid ?o)"
    by (simp add: resolved_size_def)
  from generate_case_insensitive [OF h, of "\<lambda>x. ''120''" ?o] n
  have "\<exists>out. generateIdentipattern (\<lambda>x. ''120'') ?h ?o = Inr out
          \<and> generateIdentipattern (\<lambda>x. ''120'') (upper_cased ?h) ?o = Inr out"
    by blast
  with h u show ?thesis by (simp only:)
qed

subsection \<open>The composer's output\<close>

lemma concat_map_if: "concat (map (\<lambda>i. if P i then [f i] else []) xs) = map f (filter P xs)"
  by (induction xs) simp_all

lemma block_parts_filter: "block_parts bytes sz = map (block_part sz) (filter (slot_set bytes) [0..<128])"
  unfolding block_parts_def by (rule concat_map_if)

lemma is_marker_block_part: "is_marker (block_part sz i)"
  by (simp add: block_part_def Let_def)

lemma not_glyph_block_part: "\<not> is_glyph (block_part sz i)"
  by (simp add: block_part_def Let_def)

lemma filter_marker_blocks: "filter is_marker (block_parts bytes sz) = block_parts bytes sz"
  by (simp add: block_parts_filter filter_map o_def is_marker_block_part)

lemma filter_glyph_blocks: "filter is_glyph (block_parts bytes sz) = []"
  by (simp add: block_parts_filter filter_map o_def not_glyph_block_part)

lemma filter_marker_grid: "filter is_marker (grid_parts sz) = []"
  by (simp add: grid_parts_def filter_concat o_def Let_def)

lemma filter_glyph_grid: "filter is_glyph (grid_parts sz) = []"
  by (simp add: grid_parts_def filter_concat o_def Let_def)

lemma filter_marker_waves: "filter is_marker (wave_parts bytes sz) = []"
  by (simp add: wave_parts_def wave_part_def Let_def filter_map o_def)

lemma filter_glyph_waves: "filter is_glyph (wave_parts bytes sz) = []"
  by (simp add: wave_parts_def wave_part_def Let_def filter_map o_def)

lemma filter_marker_center: "filter is_marker (center_parts bytes sz) = []"
  by (simp add: center_parts_def Let_def pushStar_def pushTriangle_def pushDot_def
      pushConcentric_def pushPolygon_def filter_map o_def)

lemma filter_glyph_center: "filter is_glyph (center_parts bytes sz) = center_parts bytes sz"
  by (simp add: center_parts_def Let_def pushStar_def pushTriangle_def pushDot_def
      pushConcentric_def pushPolygon_def filter_map o_def)

lemma filter_marker_draw: "filter is_marker (draw bytes sz g) = block_parts bytes sz"
  by (simp add: draw_def border_part_def filter_marker_grid filter_marker_waves
      filter_marker_blocks filter_marker_center)

lemma filter_glyph_draw: "filter is_glyph (draw bytes sz g) = center_parts bytes sz"
  by (simp add: draw_def border_part_def filter_glyph_grid filter_glyph_waves
      filter_glyph_blocks filter_glyph_center)

lemma drop_bit_and_one: "(drop_bit k (b::int)) AND 1 \<noteq> 0 \<longleftrightarrow> bit b k"
  by (simp add: and_one_eq bit_iff_odd_drop_bit mod_2_eq_odd)

lemma nat_and_7: "(i::nat) AND 7 = i mod 8"
proof -
  have "i AND 7 = take_bit 3 i" by (simp add: take_bit_eq_mask mask_eq_exp_minus_1)
  then show ?thesis by (simp add: take_bit_eq_mod)
qed

lemma slot_set_iff:
  "slot_set bytes i \<longleftrightarrow> i div 8 < length bytes \<and> bit (bytes ! (i div 8)) (i mod 8)"
proof -
  have "drop_bit 3 i = i div 8" by (simp add: drop_bit_eq_div)
  then show ?thesis
    by (simp add: slot_set_def Let_def drop_bit_and_one nat_and_7)
qed

lemma slot_set_hash_bytes:
  assumes "is_hash_bytes bytes"
  shows "filter (slot_set bytes) [0..<128] = filter (\<lambda>i. bit (bytes ! (i div 8)) (i mod 8)) [0..<128]"
proof (rule filter_cong [OF refl])
  fix i assume "i \<in> set [0..<128]"
  then have "i div 8 < length bytes" using assms by (simp add: is_hash_bytes_def)
  then show "slot_set bytes i = bit (bytes ! (i div 8)) (i mod 8)" by (simp add: slot_set_iff)
qed

lemma count_bits_blocks:
  "length (filter (\<lambda>i. bit ((bytes::int list) ! (i div 8)) (i mod 8)) [0..<8 * n])
   = (\<Sum>k<n. popcount8 (bytes ! k))"
proof (induction n)
  case 0
  then show ?case by simp
next
  case (Suc n)
  have "[0..<8 * n + 8] = [0..<8 * n] @ [8 * n..<8 * n + 8]"
    by (rule upt_add_eq_append) simp
  moreover have "map (\<lambda>j. j + 8 * n) [0..<8] = [8 * n..<8 * n + 8]"
    by (simp only: map_add_upt add.commute)
  moreover have "8 * Suc n = 8 * n + 8" by simp
  ultimately have split: "[0..<8 * Suc n] = [0..<8 * n] @ map (\<lambda>j. j + 8 * n) [0..<8]"
    by (simp only:)
  have "filter (\<lambda>i. bit (bytes ! (i div 8)) (i mod 8)) (map (\<lambda>j. j + 8 * n) [0..<8])
        = map (\<lambda>j. j + 8 * n) (filter (\<lambda>j. bit (bytes ! n) j) [0..<8])"
    unfolding filter_map o_def
    by (rule arg_cong [where f = "map (\<lambda>j. j + 8 * n)"], rule filter_cong [OF refl]) simp
  then have "length (filter (\<lambda>i. bit (bytes ! (i div 8)) (i mod 8)) (map (\<lambda>j. j + 8 * n) [0..<8]))
        = popcount8 (bytes ! n)"
    by (simp add: popcount8_def)
  with Suc.IH show ?case
    unfolding split by simp
qed

lemma sum_take_nth:
  "n \<le> length xs \<Longrightarrow> sum_list (map f (take n xs)) = (\<Sum>k<n. f (xs ! k))"
proof -
  assume n: "n \<le> length xs"
  have "sum_list (map f (take n xs)) = (\<Sum>k = 0..<length (map f (take n xs)). map f (take n xs) ! k)"
    by (rule sum_list_sum_nth)
  also have "\<dots> = (\<Sum>k = 0..<n. f (xs ! k))" using n by simp
  finally show ?thesis by (simp add: lessThan_atLeast0)
qed

lemma innerAccent_range: "0 \<le> innerAccent bytes \<and> innerAccent bytes \<le> 9"
  by (simp add: innerAccent_def)

lemma curveMaxPx_pos_size: "0 < curveMaxPx sz \<Longrightarrow> 0 < sz"
  by (simp add: curveMaxPx_def maxR_def curveOuterMargin_def thickness_def max_def split: if_splits)

lemma keepout_pos_iff:
  "0 \<le> ia \<Longrightarrow> ia \<le> 9 \<Longrightarrow> 0 < keepout ia sz \<longleftrightarrow> ia \<noteq> 4 \<and> 0 < curveMaxPx sz"
proof -
  assume r: "0 \<le> ia" "ia \<le> 9"
  show ?thesis
  proof (cases "0 < curveMaxPx sz")
    case True
    then have "0 < sz" by (rule curveMaxPx_pos_size)
    with True r show ?thesis by (auto simp: keepout_def Let_def)
  next
    case False
    then show ?thesis by (auto simp: keepout_def Let_def min_def)
  qed
qed

lemma center_parts_nonempty_iff:
  "center_parts bytes sz \<noteq> [] \<longleftrightarrow> innerAccent bytes \<noteq> 4 \<and> 0 < curveMaxPx sz"
proof -
  have r: "0 \<le> innerAccent bytes" "innerAccent bytes \<le> 9" using innerAccent_range by simp_all
  have "center_parts bytes sz \<noteq> [] \<longleftrightarrow> 0 < centerR (innerAccent bytes) sz \<and> innerAccent bytes \<noteq> 4"
    using r by (auto simp: center_parts_def Let_def pushStar_def pushTriangle_def pushDot_def
        pushConcentric_def pushPolygon_def)
  also have "\<dots> \<longleftrightarrow> innerAccent bytes \<noteq> 4 \<and> 0 < curveMaxPx sz"
    using keepout_pos_iff [OF r, of sz] by (auto simp: centerR_def)
  finally show ?thesis .
qed

lemma center_parts_dot:
  "innerAccent bytes = 2 \<Longrightarrow> 0 < curveMaxPx sz \<Longrightarrow>
   center_parts bytes sz = [Dot (Num (sz / 2)) (Num (sz / 2)) (Num (centerR 2 sz))]"
  using keepout_pos_iff [of 2 sz]
  by (simp add: center_parts_def Let_def pushDot_def centerR_def)

lemma filter_marker_draw_undefined:
  "filter is_marker (draw_undefined bytes)
   = map (\<lambda>i. Marker NaN NaN NaN NaN) (filter (slot_set bytes) [0..<128])"
proof -
  have "filter is_marker (concat (map (\<lambda>i. if slot_set bytes i then [Marker NaN NaN NaN NaN] else [])
          [0..<128]))
        = map (\<lambda>i. Marker NaN NaN NaN NaN) (filter (slot_set bytes) [0..<128])"
    by (simp only: concat_map_if) (simp add: filter_map o_def)
  then show ?thesis
    by (simp add: draw_undefined_def filter_map o_def del: upt_Suc)
qed

lemma filter_glyph_draw_undefined: "filter is_glyph (draw_undefined bytes) = []"
proof -
  have "filter is_glyph (concat (map (\<lambda>i. if slot_set bytes i then [Marker NaN NaN NaN NaN] else [])
          [0..<128])) = []"
    by (simp only: concat_map_if) (simp add: filter_map o_def)
  then show ?thesis
    by (simp add: draw_undefined_def filter_map o_def del: upt_Suc)
qed

text \<open>What a call returns, read off the definition.\<close>

lemma generate_prims_Inr:
  assumes "generate_prims h opts = Inr prims"
  shows "hash_regex_test h
         \<and> (case resolved_size opts of
               Value sz \<Rightarrow> prims = draw (parseBytes h) sz (resolved_showGrid opts)
             | Undefined \<Rightarrow> \<not> resolved_showGrid opts \<and> prims = draw_undefined (parseBytes h))"
  using assms by (auto simp: generate_prims_def split: if_splits js_value.splits)

lemma innerAccent_zeros: "innerAccent (replicate 32 0) = 9"
  by code_simp

lemma parseBytes_zeros: "parseBytes (replicate 64 (CHR ''0'')) = replicate 32 0"
  by code_simp

lemma regex_zeros: "hash_regex_test (replicate 64 (CHR ''0''))"
  by code_simp

subsection \<open>Claims about markers and the centre glyph\<close>

text \<open>
  Claim C4. For every call that returns, whether the size is a number or undefined, the
  marker rectangles of the output are, in order, the rectangles of the slots \<open>i\<close> in
  \<open>0..127\<close> whose bit \<open>i mod 8\<close> of byte \<open>i div 8\<close> is set, one per slot; their number is the
  population count of the first 16 bytes, and at most 128.
\<close>

theorem marker_count:
  assumes "generate_prims h opts = Inr prims"
  shows "filter is_marker prims
           = map (slot_marker (resolved_size opts))
               (filter (\<lambda>i. bit (parseBytes h ! (i div 8)) (i mod 8)) [0..<128])
         \<and> length (filter is_marker prims)
           = card {i. i < 128 \<and> bit (parseBytes h ! (i div 8)) (i mod 8)}
         \<and> length (filter is_marker prims) = sum_list (map popcount8 (take 16 (parseBytes h)))
         \<and> length (filter is_marker prims) \<le> 128"
proof -
  let ?bs = "parseBytes h"
  let ?P = "\<lambda>i. bit (?bs ! (i div 8)) (i mod 8)"
  from generate_prims_Inr [OF assms] have v: "hash_regex_test h" by blast
  have hb: "is_hash_bytes ?bs" using v by (rule parseBytes_valid)
  have m: "filter is_marker prims = map (slot_marker (resolved_size opts)) (filter ?P [0..<128])"
  proof (cases "resolved_size opts")
    case (Value sz)
    with generate_prims_Inr [OF assms]
    have "prims = draw ?bs sz (resolved_showGrid opts)" by simp
    then show ?thesis
      by (simp add: Value slot_marker_def filter_marker_draw block_parts_filter
          slot_set_hash_bytes [OF hb])
  next
    case Undefined
    with generate_prims_Inr [OF assms]
    have "prims = draw_undefined ?bs" by simp
    then show ?thesis
      by (simp add: Undefined slot_marker_def filter_marker_draw_undefined
          slot_set_hash_bytes [OF hb])
  qed
  have e: "{i. i < 128 \<and> ?P i} = set (filter ?P [0..<128])" by auto
  have "card (set (filter ?P [0..<128])) = length (filter ?P [0..<128])"
    by (rule distinct_card) simp
  then have c: "card {i. i < 128 \<and> ?P i} = length (filter ?P [0..<128])"
    by (simp only: e)
  have "length (filter ?P [0..<8 * 16]) = (\<Sum>k<16. popcount8 (?bs ! k))"
    by (rule count_bits_blocks)
  moreover have "sum_list (map popcount8 (take 16 ?bs)) = (\<Sum>k<16. popcount8 (?bs ! k))"
    using hb by (intro sum_take_nth) (simp add: is_hash_bytes_def)
  ultimately have s: "length (filter ?P [0..<128]) = sum_list (map popcount8 (take 16 ?bs))"
    by simp
  have "length (filter ?P [0..<128]) \<le> length [0..<128::nat]" by (rule length_filter_le)
  then have l: "length (filter ?P [0..<128]) \<le> 128" by simp
  from m c s l show ?thesis by simp
qed

theorem marker_count_witness:
  "generate_prims (''ff01'' @ replicate 60 (CHR ''0'')) \<lparr>opt_size = None, opt_showGrid = None\<rparr>
     = Inr (draw (parseBytes (''ff01'' @ replicate 60 (CHR ''0''))) 120 False)
   \<and> length (filter is_marker (draw (parseBytes (''ff01'' @ replicate 60 (CHR ''0''))) 120 False)) = 9
   \<and> generate_prims (''ff01'' @ replicate 60 (CHR ''0'')) \<lparr>opt_size = Some Undefined, opt_showGrid = None\<rparr>
     = Inr (draw_undefined (parseBytes (''ff01'' @ replicate 60 (CHR ''0''))))
   \<and> length (filter is_marker (draw_undefined (parseBytes (''ff01'' @ replicate 60 (CHR ''0''))))) = 9"
proof -
  let ?h = "''ff01'' @ replicate 60 (CHR ''0'')"
  have v: "hash_regex_test ?h" by code_simp
  then have g: "generate_prims ?h \<lparr>opt_size = None, opt_showGrid = None\<rparr>
     = Inr (draw (parseBytes ?h) 120 False)"
    by (simp add: generate_prims_def resolved_size_def resolved_showGrid_def)
  from v have u: "generate_prims ?h \<lparr>opt_size = Some Undefined, opt_showGrid = None\<rparr>
     = Inr (draw_undefined (parseBytes ?h))"
    by (simp add: generate_prims_def resolved_size_def resolved_showGrid_def)
  have s: "sum_list (map popcount8 (take 16 (parseBytes ?h))) = 9" by code_simp
  from marker_count [OF g]
  have "length (filter is_marker (draw (parseBytes ?h) 120 False))
        = sum_list (map popcount8 (take 16 (parseBytes ?h)))"
    by blast
  with s have n: "length (filter is_marker (draw (parseBytes ?h) 120 False)) = 9"
    by (simp only:)
  from marker_count [OF u]
  have "length (filter is_marker (draw_undefined (parseBytes ?h)))
        = sum_list (map popcount8 (take 16 (parseBytes ?h)))"
    by blast
  with s have m: "length (filter is_marker (draw_undefined (parseBytes ?h))) = 9"
    by (simp only:)
  from g n u m show ?thesis by blast
qed

text \<open>
  Claim C5, as amended. The output contains a centre glyph exactly when
  \<open>innerAccent \<noteq> 4\<close>, the size is a number and the curve bound
  \<open>curveMaxPx = 0.38 * size - max (2.1, 0.05 * size)\<close> is positive; for \<open>innerAccent = 2\<close> the
  glyph, when drawn, is the filled circle, whatever \<open>centerHollow\<close> is.
\<close>

theorem glyph_presence:
  assumes "generate_prims h opts = Inr prims"
  shows "((\<exists>p \<in> set prims. is_glyph p)
            \<longleftrightarrow> innerAccent (parseBytes h) \<noteq> 4
                \<and> (\<exists>sz. resolved_size opts = Value sz \<and> 0 < curveMaxPx sz))
         \<and> (\<forall>sz. resolved_size opts = Value sz \<and> innerAccent (parseBytes h) = 2
                  \<and> 0 < curveMaxPx sz
            \<longrightarrow> filter is_glyph prims = [Dot (Num (sz / 2)) (Num (sz / 2)) (Num (centerR 2 sz))])"
proof -
  have e: "(\<exists>p \<in> set prims. is_glyph p) \<longleftrightarrow> filter is_glyph prims \<noteq> []"
    by (simp add: filter_empty_conv)
  show ?thesis
  proof (cases "resolved_size opts")
    case (Value sz)
    with generate_prims_Inr [OF assms]
    have "prims = draw (parseBytes h) sz (resolved_showGrid opts)" by simp
    then show ?thesis
      unfolding e
      by (simp add: Value filter_glyph_draw center_parts_nonempty_iff center_parts_dot)
  next
    case Undefined
    with generate_prims_Inr [OF assms]
    have "prims = draw_undefined (parseBytes h)" by simp
    then show ?thesis
      unfolding e
      by (simp add: Undefined filter_glyph_draw_undefined)
  qed
qed

theorem glyph_presence_witness:
  "generate_prims (replicate 64 (CHR ''0'')) \<lparr>opt_size = None, opt_showGrid = None\<rparr>
     = Inr (draw (replicate 32 0) 120 False)
   \<and> innerAccent (parseBytes (replicate 64 (CHR ''0''))) = 9
   \<and> 0 < curveMaxPx 120
   \<and> (\<exists>p \<in> set (draw (replicate 32 0) 120 False). is_glyph p)"
proof -
  have g: "generate_prims (replicate 64 (CHR ''0'')) \<lparr>opt_size = None, opt_showGrid = None\<rparr>
     = Inr (draw (replicate 32 0) 120 False)"
    by (simp add: generate_prims_def regex_zeros parseBytes_zeros resolved_size_def resolved_showGrid_def)
  have c: "0 < curveMaxPx 120"
    by (simp add: curveMaxPx_def maxR_def curveOuterMargin_def thickness_def)
  have i: "innerAccent (parseBytes (replicate 64 (CHR ''0''))) = 9"
    by (simp add: parseBytes_zeros innerAccent_zeros)
  from glyph_presence [OF g] c i g show ?thesis
    by (simp add: resolved_size_def)
qed

text \<open>
  The claim as stated fails for small sizes: for the hash of 64 zeros \<open>innerAccent\<close> is 9,
  but at size 5 the curve bound is negative, so is \<open>centerR\<close>, and no glyph is drawn.
\<close>

theorem glyph_presence_counterexample:
  "generate_prims (replicate 64 (CHR ''0'')) \<lparr>opt_size = Some (Value 5), opt_showGrid = None\<rparr>
     = Inr (draw (replicate 32 0) 5 False)
   \<and> innerAccent (parseBytes (replicate 64 (CHR ''0''))) = 9
   \<and> filter is_glyph (draw (replicate 32 0) 5 False) = []"
proof -
  have "curveMaxPx 5 = - (1 / 5)"
    by (simp add: curveMaxPx_def maxR_def curveOuterMargin_def thickness_def)
  then have "center_parts (replicate 32 0) 5 = []"
    using center_parts_nonempty_iff [of "replicate 32 0" 5] by simp
  then show ?thesis
    by (simp add: generate_prims_def regex_zeros parseBytes_zeros innerAccent_zeros
        resolved_size_def resolved_showGrid_def filter_glyph_draw)
qed

subsection \<open>The wave tuner\<close>

lemma tuneWaves_loop_3: "tuneWaves_loop amp cmax mg (Suc (Suc (Suc 0))) st = st"
  by (subst tuneWaves_loop.simps) (simp add: eval_nat_numeral)

lemma tuneWaves_loop_2:
  "tuneWaves_loop amp cmax mg (Suc (Suc 0)) st
   = (if converged amp cmax mg st then st else lower_f1 st)"
  by (subst tuneWaves_loop.simps)
    (simp add: eval_nat_numeral converged_def lower_f1_def tuneWaves_loop_3 split: option.splits)

lemma tuneWaves_loop_1:
  "tuneWaves_loop amp cmax mg (Suc 0) st =
     (if converged amp cmax mg st then st
      else tuneWaves_loop amp cmax mg (Suc (Suc 0)) (raise_gamma st))"
  by (subst tuneWaves_loop.simps)
    (simp add: eval_nat_numeral converged_def raise_gamma_def split: option.splits)

lemma tuneWaves_loop_0:
  "tuneWaves_loop amp cmax mg 0 st =
     (if converged amp cmax mg st then st
      else tuneWaves_loop amp cmax mg (Suc 0) (raise_ampScale amp cmax mg st))"
  by (subst tuneWaves_loop.simps)
    (simp add: converged_def raise_ampScale_def split: option.splits)

lemma tuneWaves_eq_steps: "tuneWaves fr amp cmax thick = tune_steps fr amp cmax thick"
  by (simp add: tuneWaves_def tune_steps_def Let_def tuneWaves_loop_0 tuneWaves_loop_1
      tuneWaves_loop_2)

lemma raise_ampScale_fields:
  "f1 (raise_ampScale amp cmax mg st) = f1 st"
  "gamma (raise_ampScale amp cmax mg st) = gamma st"
  by (simp_all add: raise_ampScale_def split: option.splits)

lemma raise_ampScale_bounds:
  assumes nc: "\<not> converged amp cmax mg st" and mg: "6 \<le> mg" and a: "ampScale st = 1"
  shows "1 \<le> ampScale (raise_ampScale amp cmax mg st)
         \<and> ampScale (raise_ampScale amp cmax mg st) \<le> 1.25"
proof -
  from nc obtain g where g: "minGap_of amp cmax st = Some g" and lt: "g < mg"
    by (auto simp: converged_def split: option.splits)
  have "max g (1 / 10 ^ 6) < mg" using lt mg by simp
  moreover have "0 < max g (1 / 10 ^ 6)" by (simp add: max_def)
  ultimately have "1 \<le> mg / max g (1 / 10 ^ 6)" by (simp add: le_divide_eq)
  then have "1 \<le> sqrt (mg / max g (1 / 10 ^ 6))" by simp
  then show ?thesis by (simp add: raise_ampScale_def g a)
qed

text \<open>
  The guard \<open>max (minGap, 10\<^sup>-\<^sup>6)\<close> of the source does not change the capped factor: for a
  positive gap below \<open>minGapPx\<close> the capped value is that of \<open>sqrt (minGapPx / minGap)\<close>.
\<close>

lemma ampScale_factor_guard:
  assumes g: "0 < g" "g < mg" and mg: "6 \<le> mg"
  shows "min 1.25 (sqrt (mg / max g (1 / 10 ^ 6))) = min 1.25 (sqrt (mg / g))"
proof (cases "1 / 10 ^ 6 \<le> g")
  case True
  then have "max g (1 / 10 ^ 6) = g" by (rule max_absorb1)
  then show ?thesis by (simp only:)
next
  case False
  then have s: "g < 1 / 10 ^ 6" by simp
  have b: "(5 / 4 :: real)\<^sup>2 \<le> mg * 10 ^ 6"
  proof -
    have "(5 / 4 :: real)\<^sup>2 \<le> 6 * 10 ^ 6" by (simp add: power2_eq_square)
    also have "\<dots> \<le> mg * 10 ^ 6" using mg by simp
    finally show ?thesis .
  qed
  have "mg * 10 ^ 6 \<le> mg / g"
  proof -
    have "mg * 10 ^ 6 * g \<le> mg * 10 ^ 6 * (1 / 10 ^ 6)"
      using s mg by (intro mult_left_mono) simp_all
    then have "mg * 10 ^ 6 * g \<le> mg" by simp
    then show ?thesis using g(1) by (simp add: le_divide_eq)
  qed
  with b have "(5 / 4 :: real)\<^sup>2 \<le> mg / g" by linarith
  then have "5 / 4 \<le> sqrt (mg / g)" by (rule real_le_rsqrt)
  moreover from b have "5 / 4 \<le> sqrt (mg * 10 ^ 6)" by (rule real_le_rsqrt)
  moreover from s have "max g (1 / 10 ^ 6) = 1 / 10 ^ 6" by (intro max_absorb2) simp
  ultimately show ?thesis by (simp add: min_def)
qed

lemma tune_steps_bounds:
  assumes "3 \<le> fr"
  shows "3 \<le> f1 (tune_steps fr amp cmax thick)
         \<and> 1.35 \<le> gamma (tune_steps fr amp cmax thick)
         \<and> gamma (tune_steps fr amp cmax thick) \<le> 1.7
         \<and> 1 \<le> ampScale (tune_steps fr amp cmax thick)
         \<and> ampScale (tune_steps fr amp cmax thick) \<le> 1.25"
proof -
  define mg where "mg = max (7 * thick) 6"
  define s0 where "s0 = \<lparr>f1 = fr, gamma = 1.35, ampScale = 1\<rparr>"
  define s1 where "s1 = raise_ampScale amp cmax mg s0"
  have mg: "6 \<le> mg" by (simp add: mg_def)
  have t: "tune_steps fr amp cmax thick =
     (if converged amp cmax mg s0 then s0
      else if converged amp cmax mg s1 then s1
      else if converged amp cmax mg (raise_gamma s1) then raise_gamma s1
      else lower_f1 (raise_gamma s1))"
    by (simp add: tune_steps_def Let_def mg_def s0_def s1_def)
  have f0: "f1 s0 = fr" "gamma s0 = 1.35" "ampScale s0 = 1" by (simp_all add: s0_def)
  show ?thesis
  proof (cases "converged amp cmax mg s0")
    case True
    with assms f0 show ?thesis by (simp add: t)
  next
    case False
    from raise_ampScale_bounds [OF False mg f0(3)]
    have b: "1 \<le> ampScale s1" "ampScale s1 \<le> 1.25" by (simp_all add: s1_def)
    have fs1: "f1 s1 = fr" "gamma s1 = 1.35"
      by (simp_all add: s1_def raise_ampScale_fields f0)
    from False assms b fs1 show ?thesis
      by (auto simp: t raise_gamma_def lower_f1_def)
  qed
qed

text \<open>
  Sample 0 of every iteration has gap 0: at \<open>t = 0\<close> both \<open>sin (f1 * 0)\<close> and
  \<open>sin (f1 * (\<pi> / f1))\<close> vanish, so \<open>r1 = r2\<close>. Hence, for \<open>f1 \<ge> 3\<close>, no iteration converges
  and all three corrective steps are applied, whatever the size.
\<close>

lemma shaped_zero: "shaped 0 g = 0"
  by (simp add: shaped_def)

lemma sample_gap_first: "1 / 10 ^ 6 \<le> f1 st \<Longrightarrow> sample_gap amp cmax st 0 = 0"
proof -
  assume f: "1 / 10 ^ 6 \<le> f1 st"
  then have "max (f1 st) (1 / 10 ^ 6) = f1 st" by (simp add: max_def)
  moreover from f have "f1 st \<noteq> 0" by auto
  ultimately show ?thesis
    by (simp add: sample_gap_def Let_def shaped_zero)
qed

lemma sample_gap_nonneg: "0 \<le> sample_gap amp cmax st i"
  by (simp add: sample_gap_def Let_def)

lemma foldl_min_inf_zero:
  "(\<And>i. 0 \<le> g i) \<Longrightarrow> foldl (\<lambda>m i. min_inf m (g i)) (Some 0) xs = Some 0"
  by (induction xs) (simp_all add: min_inf_def min_def)

lemma minGap_of_zero: "1 / 10 ^ 6 \<le> f1 st \<Longrightarrow> minGap_of amp cmax st = Some 0"
proof -
  assume f: "1 / 10 ^ 6 \<le> f1 st"
  have "[0..<64] = 0 # [1..<64]" by (simp add: upt_conv_Cons)
  then have "minGap_of amp cmax st
        = foldl (\<lambda>m i. min_inf m (sample_gap amp cmax st i)) (Some 0) [1..<64]"
    by (simp add: minGap_of_def min_inf_def sample_gap_first [OF f])
  also have "\<dots> = Some 0"
    by (rule foldl_min_inf_zero) (rule sample_gap_nonneg)
  finally show ?thesis .
qed

lemma not_converged: "1 / 10 ^ 6 \<le> f1 st \<Longrightarrow> 0 < mg \<Longrightarrow> \<not> converged amp cmax mg st"
  by (simp add: converged_def minGap_of_zero)

lemma tuneWaves_never_converges:
  assumes "3 \<le> fr"
  shows "tuneWaves fr amp cmax thick
         = \<lparr>f1 = (if fr > 3 then max 3 (fr - 1) else fr), gamma = 1.55, ampScale = 1.25\<rparr>"
proof -
  let ?mg = "max (7 * thick) 6"
  let ?s0 = "\<lparr>f1 = fr, gamma = 1.35, ampScale = 1\<rparr>"
  have mg: "6 \<le> ?mg" "0 < ?mg" by simp_all
  have f0: "1 / 10 ^ 6 \<le> f1 ?s0" using assms by simp
  have "(5 / 4)\<^sup>2 \<le> ?mg * 10 ^ 6"
  proof -
    have "(5 / 4 :: real)\<^sup>2 \<le> 6 * 10 ^ 6" by (simp add: power2_eq_square)
    also have "\<dots> \<le> ?mg * 10 ^ 6" using mg by simp
    finally show ?thesis .
  qed
  then have "5 / 4 \<le> sqrt (?mg * 10 ^ 6)" by (rule real_le_rsqrt)
  moreover have "minGap_of amp cmax ?s0 = Some 0" using f0 by (rule minGap_of_zero)
  ultimately have s1: "raise_ampScale amp cmax ?mg ?s0
      = \<lparr>f1 = fr, gamma = 1.35, ampScale = 1.25\<rparr>"
    by (simp add: raise_ampScale_def min_def)
  show ?thesis
    using assms mg s1
    by (simp add: tuneWaves_eq_steps tune_steps_def Let_def not_converged raise_gamma_def
        lower_f1_def)
qed

subsection \<open>Doubling the size\<close>

lemma curveMaxPx_large: "42 \<le> sz \<Longrightarrow> curveMaxPx sz = sz * 0.33"
  by (simp add: curveMaxPx_def maxR_def curveOuterMargin_def thickness_def max_def)

lemma curveMaxPx_double: "42 \<le> sz \<Longrightarrow> curveMaxPx (2 * sz) = 2 * curveMaxPx sz"
  by (simp add: curveMaxPx_large)

lemma keepout_double: "42 \<le> sz \<Longrightarrow> keepout ia (2 * sz) = 2 * keepout ia sz"
  by (simp add: keepout_def Let_def curveMaxPx_large min_def)

lemma centerR_double: "42 \<le> sz \<Longrightarrow> centerR ia (2 * sz) = 2 * centerR ia sz"
  by (simp add: centerR_def keepout_double)

lemma radialAt_double:
  assumes ns: "max (3 * thick) 2 \<le> 0.5 * amp * cmax * ascale"
  shows "radialAt t f amp (2 * cmax) (2 * kp) thick g ascale
         = 2 * radialAt t f amp cmax kp thick g ascale"
proof -
  define b where "b = 0.5 * amp * cmax * ascale"
  define r where "r = amp * (1 + 0.5 * shaped (sin (f * t)) g) * ascale"
  have b2: "0.5 * amp * (2 * cmax) * ascale = 2 * b" by (simp add: b_def)
  have "2 \<le> b" using ns by (simp add: b_def)
  with ns have c1: "\<not> b < max (3.0 * thick) 2.0" and c2: "\<not> 2 * b < max (3.0 * thick) 2.0"
    by (simp_all add: b_def)
  have e1: "radialAt t f amp cmax kp thick g ascale = max kp (min cmax (r * cmax))"
    unfolding radialAt_def Let_def b_def [symmetric] r_def [symmetric] using c1 by simp
  have e2: "radialAt t f amp (2 * cmax) (2 * kp) thick g ascale
            = max (2 * kp) (min (2 * cmax) (r * (2 * cmax)))"
    unfolding radialAt_def Let_def b2 r_def [symmetric] using c2 by simp
  show ?thesis unfolding e1 e2 by (simp add: max_def min_def)
qed

lemma amplitude_lower: "0.35 \<le> amplitude bytes"
proof -
  have "0 \<le> real_of_int (hashSegment bytes 16 8 mod 1000)" by simp
  then show ?thesis unfolding amplitude_def by simp
qed

lemma freq1_lower: "3 \<le> freq1 bytes"
  by (simp add: freq1_def Let_def)

lemma tuneWaves_size_independent:
  "tuneWaves (real_of_int (freq1 bytes)) amp c1 thick
   = tuneWaves (real_of_int (freq1 bytes)) amp c2 thick"
proof -
  have "3 \<le> real_of_int (freq1 bytes)" using freq1_lower [of bytes] by simp
  then show ?thesis by (simp add: tuneWaves_never_converges)
qed

lemma tuneWaves_ampScale:
  "ampScale (tuneWaves (real_of_int (freq1 bytes)) amp c thick) = 1.25"
proof -
  have "3 \<le> real_of_int (freq1 bytes)" using freq1_lower [of bytes] by simp
  then show ?thesis by (simp add: tuneWaves_never_converges)
qed

lemma no_rescale_large:
  assumes "42 \<le> sz"
  shows "max (3 * thickness) 2 \<le> 0.5 * amplitude bytes * curveMaxPx sz * 1.25"
proof -
  have c: "13.86 \<le> curveMaxPx sz" using assms by (simp add: curveMaxPx_large)
  have "0.35 * 13.86 \<le> amplitude bytes * curveMaxPx sz"
    by (rule mult_mono [OF amplitude_lower c]) (use amplitude_lower [of bytes] in simp_all)
  then show ?thesis by (simp add: thickness_def)
qed

lemma wave_part_double:
  assumes "42 \<le> sz" and "ampScale tw = 1.25"
  shows "wave_part bytes (2 * sz) tw w = scale_prim 2 (wave_part bytes sz tw w)"
proof -
  have ns: "max (3 * thickness) 2 \<le> 0.5 * amplitude bytes * curveMaxPx sz * ampScale tw"
    by (simp only: assms(2) no_rescale_large [OF assms(1)])
  have r: "radialAt t (f1 tw) (amplitude bytes) (curveMaxPx (2 * sz))
             (keepout (innerAccent bytes) (2 * sz)) thickness (gamma tw) (ampScale tw)
           = 2 * radialAt t (f1 tw) (amplitude bytes) (curveMaxPx sz)
             (keepout (innerAccent bytes) sz) thickness (gamma tw) (ampScale tw)" for t
    unfolding curveMaxPx_double [OF assms(1)] keepout_double [OF assms(1)]
    by (rule radialAt_double [OF ns])
  show ?thesis
    unfolding wave_part_def Let_def r
    by (simp add: scale_point_def o_def algebra_simps)
qed

lemma wave_parts_double:
  assumes "42 \<le> sz"
  shows "wave_parts bytes (2 * sz) = map (scale_prim 2) (wave_parts bytes sz)"
proof -
  have t: "tuneWaves (real_of_int (freq1 bytes)) (amplitude bytes) (curveMaxPx (2 * sz)) thickness
        = tuneWaves (real_of_int (freq1 bytes)) (amplitude bytes) (curveMaxPx sz) thickness"
    by (rule tuneWaves_size_independent)
  show ?thesis
    unfolding wave_parts_def Let_def t
    by (simp add: o_def wave_part_double [OF assms tuneWaves_ampScale])
qed

lemma block_part_double: "block_part (2 * sz) i = scale_prim 2 (block_part sz i)"
  by (simp add: block_part_def Let_def borderOffset_def borderSize_def blockWidth_def
      blockLength_def algebra_simps)

lemma block_parts_double: "block_parts bytes (2 * sz) = map (scale_prim 2) (block_parts bytes sz)"
proof -
  have "block_part (2 * sz) = (\<lambda>i. scale_prim 2 (block_part sz i))"
    by (rule ext) (rule block_part_double)
  then show ?thesis by (simp only: block_parts_filter map_map o_def)
qed

lemma grid_parts_double: "grid_parts (2 * sz) = map (scale_prim 2) (grid_parts sz)"
  by (simp add: grid_parts_def Let_def map_concat o_def mult.commute)

lemma border_part_double: "border_part (2 * sz) = scale_prim 2 (border_part sz)"
  by (simp add: border_part_def borderOffset_def borderSize_def)

lemma pushStar_double:
  "pushStar (2 * cx) (2 * cy) (2 * cr) h = map (scale_prim 2) (pushStar cx cy cr h)"
  unfolding pushStar_def Let_def
  by (simp add: scale_point_def o_def algebra_simps del: upt_Suc)

lemma pushTriangle_double:
  "pushTriangle (2 * cx) (2 * cy) (2 * cr) h = map (scale_prim 2) (pushTriangle cx cy cr h)"
  unfolding pushTriangle_def Let_def
  by (simp add: scale_point_def o_def algebra_simps del: upt_Suc)

lemma pushDot_double: "pushDot (2 * cx) (2 * cy) (2 * cr) = map (scale_prim 2) (pushDot cx cy cr)"
  by (simp add: pushDot_def)

lemma pushConcentric_double:
  "pushConcentric (2 * cx) (2 * cy) (2 * cr) = map (scale_prim 2) (pushConcentric cx cy cr)"
  unfolding pushConcentric_def
  by (simp add: o_def algebra_simps del: upt_Suc)

lemma pushPolygon_double:
  "pushPolygon (2 * cx) (2 * cy) (2 * cr) h n = map (scale_prim 2) (pushPolygon cx cy cr h n)"
  unfolding pushPolygon_def Let_def
  by (simp add: scale_point_def o_def algebra_simps)

lemma center_parts_double:
  assumes "42 \<le> sz"
  shows "center_parts bytes (2 * sz) = map (scale_prim 2) (center_parts bytes sz)"
proof -
  have h: "2 * sz / 2 = 2 * (sz / 2)" by simp
  show ?thesis
    unfolding center_parts_def Let_def centerR_double [OF assms] h
    by (simp add: pushStar_double [of "sz / 2" "sz / 2", simplified]
        pushTriangle_double [of "sz / 2" "sz / 2", simplified]
        pushDot_double [of "sz / 2" "sz / 2", simplified]
        pushConcentric_double [of "sz / 2" "sz / 2", simplified]
        pushPolygon_double [of "sz / 2" "sz / 2", simplified])
qed

lemma draw_double:
  assumes "42 \<le> sz"
  shows "draw bytes (2 * sz) g = map (scale_prim 2) (draw bytes sz g)"
  unfolding draw_def
  by (simp add: grid_parts_double border_part_double wave_parts_double [OF assms]
      block_parts_double center_parts_double [OF assms])

lemma strokes_draw: "list_all strokes_nominal (draw bytes sz g)"
proof -
  have w: "list_all strokes_nominal (wave_parts bytes sz)"
    by (simp add: wave_parts_def wave_part_def Let_def list_all_iff thickness_def)
  have "strokes_nominal (block_part sz i)" for i
    by (simp add: block_part_def Let_def)
  then have b: "list_all strokes_nominal (block_parts bytes sz)"
    by (auto simp: block_parts_filter list_all_iff)
  have c: "list_all strokes_nominal (center_parts bytes sz)"
    by (auto simp: center_parts_def Let_def pushStar_def pushTriangle_def pushDot_def
        pushConcentric_def pushPolygon_def list_all_iff)
  have g: "list_all strokes_nominal (grid_parts sz)"
    by (simp add: grid_parts_def Let_def list_all_iff)
  show ?thesis
    unfolding draw_def
    by (simp add: w b c g border_part_def borderThickness_def thickness_def)
qed

lemma centerHollow_zeros: "centerHollow (replicate 32 0)"
  by code_simp

lemma is_glyph_scale: "is_glyph (scale_prim k p) = is_glyph p"
  by (cases p) simp_all

lemma filter_glyph_scale:
  "filter is_glyph (map (scale_prim k) ps) = map (scale_prim k) (filter is_glyph ps)"
  by (simp add: filter_map o_def is_glyph_scale)

lemma polygon_first_vertex:
  "0 < n \<Longrightarrow>
   \<exists>rest. pushPolygon cx cy cr hollow n = [GlyphPath ((Num cx, Num (cy - cr)) # rest) hollow thickness]"
proof -
  assume "0 < n"
  then have "[0..<n] = 0 # [1..<n]" by (simp add: upt_conv_Cons)
  then show ?thesis by (simp add: pushPolygon_def Let_def)
qed

lemma center_zeros_20:
  "\<exists>rest. center_parts (replicate 32 0) 20 = [GlyphPath ((Num 10, Num 8.35) # rest) True 0.7]"
proof -
  have cr: "centerR 9 20 = 1.65"
    by (simp add: centerR_def keepout_def curveMaxPx_def maxR_def curveOuterMargin_def thickness_def)
  then have "0 < centerR 9 20" by simp
  then have "center_parts (replicate 32 0) 20 = pushPolygon 10 10 (centerR 9 20) True 8"
    by (simp add: center_parts_def Let_def innerAccent_zeros centerHollow_zeros)
  with polygon_first_vertex [of 8 10 10 "centerR 9 20" True] show ?thesis
    unfolding cr by (simp add: thickness_def)
qed

lemma center_zeros_40:
  "\<exists>rest. center_parts (replicate 32 0) 40 = [GlyphPath ((Num 20, Num 16.1) # rest) True 0.7]"
proof -
  have cr: "centerR 9 40 = 3.9"
    by (simp add: centerR_def keepout_def curveMaxPx_def maxR_def curveOuterMargin_def thickness_def)
  then have "0 < centerR 9 40" by simp
  then have "center_parts (replicate 32 0) 40 = pushPolygon 20 20 (centerR 9 40) True 8"
    by (simp add: center_parts_def Let_def innerAccent_zeros centerHollow_zeros)
  with polygon_first_vertex [of 8 20 20 "centerR 9 40" True] show ?thesis
    unfolding cr by (simp add: thickness_def)
qed

text \<open>The strings emitted for the two ordinates compared below, whatever the runtime's
  number conversion is.\<close>

lemma r2_1610: "r2 nts (Num 16.1) = ''16.10''"
proof -
  have "nat \<lfloor>(16.1::real) * 100 + 1 / 2\<rfloor> = 1610" by simp
  moreover have "dec_digits 1610 = ''1610''" by code_simp
  ultimately show ?thesis by (simp add: toFixed2_def Let_def)
qed

lemma r2_1670: "r2 nts (Num (2 * 8.35)) = ''16.70''"
proof -
  have "nat \<lfloor>(2 * 8.35::real) * 100 + 1 / 2\<rfloor> = 1670" by simp
  moreover have "dec_digits 1670 = ''1670''" by code_simp
  ultimately show ?thesis by (simp add: toFixed2_def Let_def)
qed

text \<open>The parts outside the waves and the glyph double at every size.\<close>

lemma is_frame_block_part: "is_frame (block_part sz i)"
  by (simp add: is_frame_def block_part_def Let_def)

lemma filter_frame_blocks: "filter is_frame (block_parts bytes sz) = block_parts bytes sz"
  by (simp add: block_parts_filter filter_map o_def is_frame_block_part)

lemma filter_frame_grid: "filter is_frame (grid_parts sz) = grid_parts sz"
  by (simp add: grid_parts_def filter_concat o_def Let_def is_frame_def)

lemma filter_frame_waves: "filter is_frame (wave_parts bytes sz) = []"
  by (simp add: wave_parts_def wave_part_def Let_def filter_map o_def is_frame_def)

lemma filter_frame_center: "filter is_frame (center_parts bytes sz) = []"
  by (simp add: center_parts_def Let_def pushStar_def pushTriangle_def pushDot_def
      pushConcentric_def pushPolygon_def filter_map o_def is_frame_def)

lemma filter_frame_draw:
  "filter is_frame (draw bytes sz g)
   = [SvgOpen (Value sz), Background (Value sz)] @ (if g then grid_parts sz else [])
     @ [border_part sz] @ block_parts bytes sz @ [SvgClose]"
  by (simp add: draw_def filter_frame_grid filter_frame_waves filter_frame_blocks
      filter_frame_center)
    (simp add: is_frame_def border_part_def)

lemma frame_double:
  "filter is_frame (draw bytes (2 * sz) g) = map (scale_prim 2) (filter is_frame (draw bytes sz g))"
  by (simp add: filter_frame_draw grid_parts_double border_part_double block_parts_double)

subsection \<open>Claims about the tuner and about scaling\<close>

text \<open>
  Claim C8. \<open>tuneWaves\<close> always returns, after at most three iterations; it is the
  composition of the three corrective steps in their fixed order (\<open>ampScale\<close> raised by the
  factor \<open>sqrt (minGapPx / max (minGap, 10\<^sup>-\<^sup>6))\<close> capped at 1.25, then \<open>gamma\<close> raised by 0.2
  capped at 1.7, then \<open>f1\<close> lowered by 1 only if \<open>f1 > 3\<close>), each applied only while the state
  has not converged; and for \<open>freq1 \<ge> 3\<close> the result has \<open>f1 \<ge> 3\<close>, \<open>1.35 \<le> gamma \<le> 1.7\<close> and
  \<open>1 \<le> ampScale \<le> 1.25\<close>.
\<close>

theorem tuneWaves_steps_bounds:
  "tuneWaves fr amp cmax thick = tune_steps fr amp cmax thick
   \<and> (3 \<le> fr \<longrightarrow>
        3 \<le> f1 (tuneWaves fr amp cmax thick)
        \<and> 1.35 \<le> gamma (tuneWaves fr amp cmax thick)
        \<and> gamma (tuneWaves fr amp cmax thick) \<le> 1.7
        \<and> 1 \<le> ampScale (tuneWaves fr amp cmax thick)
        \<and> ampScale (tuneWaves fr amp cmax thick) \<le> 1.25)"
  using tune_steps_bounds [of fr amp cmax thick] by (simp add: tuneWaves_eq_steps)

theorem tuneWaves_steps_bounds_witness:
  "(3::real) \<le> 5
   \<and> tuneWaves 5 0.5 39.6 0.7 = tune_steps 5 0.5 39.6 0.7
   \<and> tuneWaves 5 0.5 39.6 0.7 = \<lparr>f1 = 4, gamma = 1.55, ampScale = 1.25\<rparr>
   \<and> 3 \<le> f1 (tuneWaves 5 0.5 39.6 0.7)
   \<and> 1 \<le> ampScale (tuneWaves 5 0.5 39.6 0.7)"
proof -
  have h: "(3::real) \<le> 5" by simp
  have "tuneWaves 5 0.5 39.6 0.7 = \<lparr>f1 = 4, gamma = 1.55, ampScale = 1.25\<rparr>"
    using tuneWaves_never_converges [OF h, of "0.5" "39.6" "0.7"] by simp
  with tuneWaves_steps_bounds [of 5 "0.5" "39.6" "0.7"] h show ?thesis by blast
qed

text \<open>
  Claim C7, as amended. For every valid hash and every size that is a number, doubling
  the size leaves every stroke width as it is (0.7 for the waves, 0.63 for the border)
  and doubles every coordinate and length of the background, the grid, the border and
  the markers; from size 42 on (where \<open>0.05 * size \<ge> 3 * thickness\<close>) it doubles every
  coordinate, length and radius of the output before rounding, primitive by primitive,
  the waves and the centre glyph included.
\<close>

theorem size_doubling:
  assumes "generate_prims h \<lparr>opt_size = Some (Value sz), opt_showGrid = g\<rparr> = Inr p1"
      and "generate_prims h \<lparr>opt_size = Some (Value (2 * sz)), opt_showGrid = g\<rparr> = Inr p2"
  shows "list_all strokes_nominal p1 \<and> list_all strokes_nominal p2
         \<and> filter is_frame p2 = map (scale_prim 2) (filter is_frame p1)
         \<and> (42 \<le> sz \<longrightarrow> p2 = map (scale_prim 2) p1)"
proof -
  let ?b = "parseBytes h"
  let ?g = "resolved_showGrid \<lparr>opt_size = Some (Value sz), opt_showGrid = g\<rparr>"
  from generate_prims_Inr [OF assms(1)] have p1: "p1 = draw ?b sz ?g"
    by (simp add: resolved_size_def)
  from generate_prims_Inr [OF assms(2)] have p2: "p2 = draw ?b (2 * sz) ?g"
    by (simp add: resolved_size_def resolved_showGrid_def)
  have "list_all strokes_nominal p1" unfolding p1 by (rule strokes_draw)
  moreover have "list_all strokes_nominal p2" unfolding p2 by (rule strokes_draw)
  moreover have "filter is_frame p2 = map (scale_prim 2) (filter is_frame p1)"
    unfolding p1 p2 by (rule frame_double)
  moreover have "42 \<le> sz \<longrightarrow> p2 = map (scale_prim 2) p1"
    unfolding p1 p2 using draw_double [of sz ?b ?g] by blast
  ultimately show ?thesis by blast
qed

theorem size_doubling_witness:
  "generate_prims (replicate 64 (CHR ''0'')) \<lparr>opt_size = Some (Value 60), opt_showGrid = Some (Value True)\<rparr>
     = Inr (draw (replicate 32 0) 60 True)
   \<and> generate_prims (replicate 64 (CHR ''0'')) \<lparr>opt_size = Some (Value (2 * 60)), opt_showGrid = Some (Value True)\<rparr>
     = Inr (draw (replicate 32 0) (2 * 60) True)
   \<and> (42::real) \<le> 60
   \<and> draw (replicate 32 0) (2 * 60) True = map (scale_prim 2) (draw (replicate 32 0) 60 True)"
proof -
  have g1: "generate_prims (replicate 64 (CHR ''0'')) \<lparr>opt_size = Some (Value 60), opt_showGrid = Some (Value True)\<rparr>
     = Inr (draw (replicate 32 0) 60 True)"
    by (simp add: generate_prims_def regex_zeros parseBytes_zeros resolved_size_def resolved_showGrid_def)
  have g2: "generate_prims (replicate 64 (CHR ''0'')) \<lparr>opt_size = Some (Value (2 * 60)), opt_showGrid = Some (Value True)\<rparr>
     = Inr (draw (replicate 32 0) (2 * 60) True)"
    by (simp add: generate_prims_def regex_zeros parseBytes_zeros resolved_size_def resolved_showGrid_def)
  have s: "(42::real) \<le> 60" by simp
  from size_doubling [OF g1 g2] g1 g2 s show ?thesis by blast
qed

text \<open>
  The claim as stated fails below that size. For the hash of 64 zeros the centre glyph
  is an octagon whose first vertex is \<open>(10, 8.35)\<close> at size 20 and \<open>(20, 16.10)\<close> at size 40,
  not \<open>(20, 16.70)\<close>: at size 20 the keepout is capped by \<open>0.4 * curveMaxPx\<close>, and
  \<open>curveMaxPx\<close> contains the fixed margin \<open>3 * thickness\<close>. The emitted ordinates are
  \<open>16.10\<close> and twice \<open>8.35\<close>, which is \<open>16.70\<close> (lemmas \<open>r2_1610\<close>, \<open>r2_1670\<close>).
\<close>

theorem size_doubling_counterexample:
  "generate_prims (replicate 64 (CHR ''0'')) \<lparr>opt_size = Some (Value 20), opt_showGrid = None\<rparr>
     = Inr (draw (replicate 32 0) 20 False)
   \<and> generate_prims (replicate 64 (CHR ''0'')) \<lparr>opt_size = Some (Value (2 * 20)), opt_showGrid = None\<rparr>
     = Inr (draw (replicate 32 0) 40 False)
   \<and> map first_vertex (filter is_glyph (draw (replicate 32 0) 20 False)) = [Some (Num 10, Num 8.35)]
   \<and> map first_vertex (filter is_glyph (draw (replicate 32 0) 40 False)) = [Some (Num 20, Num 16.1)]
   \<and> draw (replicate 32 0) 40 False \<noteq> map (scale_prim 2) (draw (replicate 32 0) 20 False)"
proof -
  have g20: "generate_prims (replicate 64 (CHR ''0'')) \<lparr>opt_size = Some (Value 20), opt_showGrid = None\<rparr>
     = Inr (draw (replicate 32 0) 20 False)"
    by (simp add: generate_prims_def regex_zeros parseBytes_zeros resolved_size_def resolved_showGrid_def)
  have g40: "generate_prims (replicate 64 (CHR ''0'')) \<lparr>opt_size = Some (Value (2 * 20)), opt_showGrid = None\<rparr>
     = Inr (draw (replicate 32 0) 40 False)"
    by (simp add: generate_prims_def regex_zeros parseBytes_zeros resolved_size_def resolved_showGrid_def)
  from center_zeros_20 obtain r20 where
    c20: "center_parts (replicate 32 0) 20 = [GlyphPath ((Num 10, Num 8.35) # r20) True 0.7]" by blast
  from center_zeros_40 obtain r40 where
    c40: "center_parts (replicate 32 0) 40 = [GlyphPath ((Num 20, Num 16.1) # r40) True 0.7]" by blast
  have f20: "map first_vertex (filter is_glyph (draw (replicate 32 0) 20 False)) = [Some (Num 10, Num 8.35)]"
    unfolding filter_glyph_draw c20 by simp
  have f40: "map first_vertex (filter is_glyph (draw (replicate 32 0) 40 False)) = [Some (Num 20, Num 16.1)]"
    unfolding filter_glyph_draw c40 by simp
  have ne: "draw (replicate 32 0) 40 False \<noteq> map (scale_prim 2) (draw (replicate 32 0) 20 False)"
  proof
    assume "draw (replicate 32 0) 40 False = map (scale_prim 2) (draw (replicate 32 0) 20 False)"
    then have "filter is_glyph (draw (replicate 32 0) 40 False)
               = map (scale_prim 2) (filter is_glyph (draw (replicate 32 0) 20 False))"
      by (simp only: filter_glyph_scale)
    then show False by (simp add: filter_glyph_draw c20 c40 scale_point_def)
  qed
  from g20 g40 f20 f40 ne show ?thesis by blast
qed


end
